theory Spec2Isabelle
  imports Complex_Main
begin

section \<open>Python values used by the selectors and the recognizer\<close>

text \<open>
  Exceptions are values. \<open>FitFailure\<close> and \<open>ScoreFailure\<close> stand for whatever the
  hmmlearn calls raise; the others are the Python built-in exceptions the source itself
  can trigger (\<open>None.score\<close>, \<open>math.log(0)\<close>, \<open>x / 0\<close>, an integer too large to
  convert to a float, \<open>KFold(n_splits=0)\<close>, reading a local variable that was never
  assigned).
\<close>

datatype error =
    AttributeError | KeyError | IndexError | ValueError | ZeroDivisionError
  | OverflowError | UnboundLocalError | FitFailure | ScoreFailure

text \<open>
  A Python float: not-a-number, the two infinities (\<open>float("-inf")\<close>,
  \<open>float("inf")\<close>) and the finite values, each standing for the real number it
  denotes. A score that does not raise may be any of them.
\<close>

datatype pyfloat = NaN | NegInf | Fin real | PosInf

text \<open>
  The comparison \<open>a < b\<close> of two floats is exact, and false as soon as one side is
  not-a-number; \<open>a > b\<close> is \<open>b < a\<close>.
\<close>

fun py_lt :: "pyfloat \<Rightarrow> pyfloat \<Rightarrow> bool" where
  "py_lt NaN y = False"
| "py_lt NegInf NaN = False"
| "py_lt NegInf NegInf = False"
| "py_lt NegInf (Fin b) = True"
| "py_lt NegInf PosInf = True"
| "py_lt (Fin a) NaN = False"
| "py_lt (Fin a) NegInf = False"
| "py_lt (Fin a) (Fin b) = (a < b)"
| "py_lt (Fin a) PosInf = True"
| "py_lt PosInf y = False"

text \<open>
  Float arithmetic rounds, overflows to an infinity and propagates not-a-number; none of
  that is fixed here. The operations the source uses are parameters of the development,
  so every result below holds for whatever values they compute:
  \<open>f_add\<close>, \<open>f_sub\<close>, \<open>f_mul\<close> for \<open>+\<close>, \<open>-\<close>, \<open>*\<close> on two
  floats; \<open>f_of_int\<close> for the conversion of an integer operand (\<open>None\<close> when the
  integer is too large, an \<open>OverflowError\<close>); \<open>f_log\<close> for \<open>math.log\<close> of a
  positive integer; \<open>f_sum\<close> for \<open>sum\<close> of a non-empty list of floats;
  \<open>f_div_count\<close> for a float divided by a positive list length; \<open>f_mean\<close> for
  \<open>np.mean\<close> of a non-empty list of floats.
\<close>

record float_arith =
  f_add :: "pyfloat \<Rightarrow> pyfloat \<Rightarrow> pyfloat"
  f_sub :: "pyfloat \<Rightarrow> pyfloat \<Rightarrow> pyfloat"
  f_mul :: "pyfloat \<Rightarrow> pyfloat \<Rightarrow> pyfloat"
  f_of_int :: "int \<Rightarrow> pyfloat option"
  f_log :: "nat \<Rightarrow> pyfloat"
  f_sum :: "pyfloat list \<Rightarrow> pyfloat"
  f_div_count :: "pyfloat \<Rightarrow> nat \<Rightarrow> pyfloat"
  f_mean :: "pyfloat list \<Rightarrow> pyfloat"

text \<open>\<open>math.log(n)\<close> for an integer: a \<open>ValueError\<close> outside the domain.\<close>

definition math_log :: "float_arith \<Rightarrow> nat \<Rightarrow> error + pyfloat" where
  "math_log ar n = (if n = 0 then Inl ValueError else Inr (f_log ar n))"

text \<open>\<open>i * x\<close> for an integer \<open>i\<close> and a float \<open>x\<close>: the integer is converted first.\<close>

definition int_times_float :: "float_arith \<Rightarrow> int \<Rightarrow> pyfloat \<Rightarrow> error + pyfloat" where
  "int_times_float ar i x =
     (case f_of_int ar i of None \<Rightarrow> Inl OverflowError | Some fi \<Rightarrow> Inr (f_mul ar fi x))"

text \<open>
  \<open>sum(xs) / n\<close> for a list of floats and a list length \<open>n\<close> that is zero only
  when \<open>xs\<close> is empty: then \<open>sum(xs)\<close> is the integer 0 and \<open>0 / 0\<close> raises.
\<close>

definition sum_over_count :: "float_arith \<Rightarrow> pyfloat list \<Rightarrow> nat \<Rightarrow> error + pyfloat" where
  "sum_over_count ar xs n =
     (if n = 0 then Inl ZeroDivisionError else Inr (f_div_count ar (f_sum ar xs) n))"

text \<open>\<open>xs[i]\<close> for a non-negative index.\<close>

definition list_get :: "'a list \<Rightarrow> nat \<Rightarrow> error + 'a" where
  "list_get xs i = (if i < length xs then Inr (xs ! i) else Inl IndexError)"

text \<open>
  A list comprehension \<open>[f(x) for x in xs]\<close> whose element expression may raise: the
  first exception aborts the comprehension.
\<close>

fun collect :: "('a \<Rightarrow> error + 'b) \<Rightarrow> 'a list \<Rightarrow> error + 'b list" where
  "collect f [] = Inr []"
| "collect f (x # xs) =
     (case f x of
        Inl e \<Rightarrow> Inl e
      | Inr y \<Rightarrow> (case collect f xs of Inl e \<Rightarrow> Inl e | Inr ys \<Rightarrow> Inr (y # ys)))"

text \<open>Python dictionaries, in insertion order: \<open>d[k]\<close> and \<open>d[k] = v\<close>.\<close>

definition dict_get :: "('k \<times> 'v) list \<Rightarrow> 'k \<Rightarrow> error + 'v" where
  "dict_get d k = (case map_of d k of None \<Rightarrow> Inl KeyError | Some v \<Rightarrow> Inr v)"

fun dict_set :: "('k \<times> 'v) list \<Rightarrow> 'k \<Rightarrow> 'v \<Rightarrow> ('k \<times> 'v) list" where
  "dict_set [] k v = [(k, v)]"
| "dict_set ((k', v') # d) k v = (if k' = k then (k, v) # d else (k', v') # dict_set d k v)"

section \<open>The hmmlearn collaborator\<close>

type_synonym frame = "real list"
type_synonym obs = "frame list"

text \<open>
  A fitted \<open>GaussianHMM\<close> object: the state count it was constructed with, the feature
  dimensionality recorded by \<open>fit\<close>, and the fitted parameters.
\<close>

record 'p hmm =
  n_components :: int
  n_features :: int
  params :: 'p

text \<open>
  The library itself is a parameter of the development. \<open>fit_impl n seed X lengths\<close>
  is what \<open>GaussianHMM(n_components=n, covariance_type="diag", n_iter=1000,
  random_state=seed).fit(X, lengths)\<close> learns (feature count and parameters), or
  \<open>None\<close> when it raises; \<open>score_impl m X lengths\<close> is the float returned by
  \<open>m.score(X, lengths)\<close>, or \<open>None\<close> when it raises.
\<close>

record 'p hmmlearn =
  fit_impl :: "int \<Rightarrow> int \<Rightarrow> obs \<Rightarrow> nat list \<Rightarrow> (int \<times> 'p) option"
  score_impl :: "'p hmm \<Rightarrow> obs \<Rightarrow> nat list \<Rightarrow> pyfloat option"

definition GaussianHMM_fit ::
  "'p hmmlearn \<Rightarrow> int \<Rightarrow> int \<Rightarrow> obs \<Rightarrow> nat list \<Rightarrow> error + 'p hmm" where
  "GaussianHMM_fit lib n seed X' lens =
     (case fit_impl lib n seed X' lens of
        None \<Rightarrow> Inl FitFailure
      | Some (d, p) \<Rightarrow> Inr \<lparr>n_components = n, n_features = d, params = p\<rparr>)"

text \<open>\<open>model.score(X, lengths)\<close> where \<open>model\<close> may be Python's \<open>None\<close>.\<close>

definition model_score ::
  "'p hmmlearn \<Rightarrow> 'p hmm option \<Rightarrow> obs \<Rightarrow> nat list \<Rightarrow> error + pyfloat" where
  "model_score lib model X' lens =
     (case model of
        None \<Rightarrow> Inl AttributeError
      | Some m \<Rightarrow> (case score_impl lib m X' lens of
                    None \<Rightarrow> Inl ScoreFailure
                  | Some logL \<Rightarrow> Inr logL))"

section \<open>my_model_selectors.py\<close>

subsection \<open>ModelSelector\<close>

record selector =
  words :: "(string \<times> obs list) list"
  hwords :: "(string \<times> obs \<times> nat list) list"
  sequences :: "obs list"
  X_obs :: obs
  lengths :: "nat list"
  this_word :: string
  n_constant :: int
  min_n_components :: int
  max_n_components :: int
  random_state :: int
  verbose :: bool

definition ModelSelector_init ::
  "(string \<times> obs list) list \<Rightarrow> (string \<times> obs \<times> nat list) list \<Rightarrow> string \<Rightarrow>
   int \<Rightarrow> int \<Rightarrow> int \<Rightarrow> int \<Rightarrow> bool \<Rightarrow> error + selector" where
  "ModelSelector_init all_word_sequences all_word_Xlengths w nc min_n max_n seed vb =
     (case dict_get all_word_sequences w of
        Inl e \<Rightarrow> Inl e
      | Inr seqs \<Rightarrow>
         (case dict_get all_word_Xlengths w of
            Inl e \<Rightarrow> Inl e
          | Inr (X', lens) \<Rightarrow>
              Inr \<lparr>words = all_word_sequences, hwords = all_word_Xlengths,
                   sequences = seqs, X_obs = X', lengths = lens, this_word = w,
                   n_constant = nc, min_n_components = min_n, max_n_components = max_n,
                   random_state = seed, verbose = vb\<rparr>))"

text \<open>\<open>base_model\<close> swallows every exception of the fit and returns \<open>None\<close>.\<close>

definition base_model :: "'p hmmlearn \<Rightarrow> selector \<Rightarrow> int \<Rightarrow> 'p hmm option" where
  "base_model lib s num_states =
     (case GaussianHMM_fit lib num_states (random_state s) (X_obs s) (lengths s) of
        Inl e \<Rightarrow> None
      | Inr hmm_model \<Rightarrow> Some hmm_model)"

subsection \<open>SelectorConstant\<close>

definition SelectorConstant_select :: "'p hmmlearn \<Rightarrow> selector \<Rightarrow> 'p hmm option" where
  "SelectorConstant_select lib s = (let best_num_components = n_constant s
                                    in base_model lib s best_num_components)"

subsection \<open>SelectorBIC\<close>

text \<open>
  The body of the \<open>try\<close> for one \<open>n_components\<close>, up to the computed \<open>bic\<close>. In
  \<open>- 2 * logL + p * logN\<close> the literal \<open>-2\<close> converts exactly; \<open>p\<close> is an
  integer of any size.
\<close>

definition bic_body ::
  "float_arith \<Rightarrow> 'p hmmlearn \<Rightarrow> selector \<Rightarrow> int \<Rightarrow> error + (pyfloat \<times> 'p hmm option)" where
  "bic_body ar lib s n =
     (let model = base_model lib s n in
      case model_score lib model (X_obs s) (lengths s) of
        Inl e \<Rightarrow> Inl e
      | Inr logL \<Rightarrow>
         (case model of
            None \<Rightarrow> Inl AttributeError
          | Some m \<Rightarrow>
             (let p = n ^ 2 + 2 * n * n_features m - 1 in
              case math_log ar (sum_list (lengths s)) of
                Inl e \<Rightarrow> Inl e
              | Inr logN \<Rightarrow>
                 (case int_times_float ar p logN of
                    Inl e \<Rightarrow> Inl e
                  | Inr penalty \<Rightarrow>
                      Inr (f_add ar (f_mul ar (Fin (- 2)) logL) penalty, model)))))"

fun bic_loop ::
  "float_arith \<Rightarrow> 'p hmmlearn \<Rightarrow> selector \<Rightarrow> int list \<Rightarrow> pyfloat \<times> 'p hmm option \<Rightarrow>
   pyfloat \<times> 'p hmm option"
where
  "bic_loop ar lib s [] st = st"
| "bic_loop ar lib s (n # ns) (select_bic, select_model) =
     (case bic_body ar lib s n of
        Inl e \<Rightarrow> bic_loop ar lib s ns (select_bic, select_model)
      | Inr (bic, model) \<Rightarrow>
          if py_lt bic select_bic
          then bic_loop ar lib s ns (bic, model)
          else bic_loop ar lib s ns (select_bic, select_model))"

definition SelectorBIC_select :: "float_arith \<Rightarrow> 'p hmmlearn \<Rightarrow> selector \<Rightarrow> 'p hmm option" where
  "SelectorBIC_select ar lib s =
     snd (bic_loop ar lib s [min_n_components s .. max_n_components s] (PosInf, None))"

subsection \<open>SelectorDIC\<close>

definition other_words :: "selector \<Rightarrow> error + (obs \<times> nat list) list" where
  "other_words s =
     collect (\<lambda>w. dict_get (hwords s) w)
       (filter (\<lambda>w. w \<noteq> this_word s) (map fst (hwords s)))"

definition dic_body ::
  "float_arith \<Rightarrow> 'p hmmlearn \<Rightarrow> selector \<Rightarrow> int \<Rightarrow> error + (pyfloat \<times> 'p hmm option)" where
  "dic_body ar lib s n =
     (let model = base_model lib s n in
      case model_score lib model (X_obs s) (lengths s) of
        Inl e \<Rightarrow> Inl e
      | Inr logL \<Rightarrow>
         (case other_words s of
            Inl e \<Rightarrow> Inl e
          | Inr others \<Rightarrow>
             (case collect (\<lambda>(X', len). model_score lib model X' len) others of
                Inl e \<Rightarrow> Inl e
              | Inr anti_logsL \<Rightarrow>
                 (case sum_over_count ar anti_logsL (length others) of
                    Inl e \<Rightarrow> Inl e
                  | Inr mean \<Rightarrow> Inr (f_sub ar logL mean, model)))))"

fun dic_loop ::
  "float_arith \<Rightarrow> 'p hmmlearn \<Rightarrow> selector \<Rightarrow> int list \<Rightarrow> pyfloat \<times> 'p hmm option \<Rightarrow>
   pyfloat \<times> 'p hmm option"
where
  "dic_loop ar lib s [] st = st"
| "dic_loop ar lib s (n # ns) (select_dic, select_model) =
     (case dic_body ar lib s n of
        Inl e \<Rightarrow> dic_loop ar lib s ns (select_dic, select_model)
      | Inr (dic, model) \<Rightarrow>
          if py_lt select_dic dic
          then dic_loop ar lib s ns (dic, model)
          else dic_loop ar lib s ns (select_dic, select_model))"

definition SelectorDIC_select :: "float_arith \<Rightarrow> 'p hmmlearn \<Rightarrow> selector \<Rightarrow> 'p hmm option" where
  "SelectorDIC_select ar lib s =
     snd (dic_loop ar lib s [min_n_components s .. max_n_components s] (NegInf, None))"

subsection \<open>SelectorCV\<close>

type_synonym splitter = "nat \<Rightarrow> nat \<Rightarrow> error + (nat list \<times> nat list) list"

text \<open>
  Modelled from the spec: the k-fold splitter \<open>KFold(n_splits=k).split(xs)\<close> of
  scikit-learn is not among the sources. The spec asks for a stable, non-shuffled
  assignment in original order that matches a conventional k-fold splitter; this is the
  contiguous-block one: over \<open>n\<close> samples the first \<open>n mod k\<close> held-out blocks have
  \<open>n div k + 1\<close> indices and the others \<open>n div k\<close>, each training part is the rest in
  order. Fewer than two folds, or more folds than samples, is a \<open>ValueError\<close>.
\<close>

definition fold_sizes :: "nat \<Rightarrow> nat \<Rightarrow> nat list" where
  "fold_sizes n k = map (\<lambda>i. n div k + (if i < n mod k then 1 else 0)) [0..<k]"

fun fold_blocks :: "nat \<Rightarrow> nat list \<Rightarrow> nat list list" where
  "fold_blocks current [] = []"
| "fold_blocks current (fold_size # rest) =
     [current..<current + fold_size] # fold_blocks (current + fold_size) rest"

definition KFold :: splitter where
  "KFold n_splits n_samples =
     (if n_splits \<le> 1 then Inl ValueError
      else if n_splits > n_samples then Inl ValueError
      else Inr (map (\<lambda>test_index.
                      (filter (\<lambda>i. i \<notin> set test_index) [0..<n_samples], test_index))
                  (fold_blocks 0 (fold_sizes n_samples n_splits))))"

text \<open>
  Modelled from the spec: \<open>combine_sequences\<close> of \<open>asl_utils\<close> is not among the
  sources. It builds the ConcatenatedObservations of the sequences at the given indices:
  their frames stacked in order, paired with each contributing sequence's frame count.
\<close>

definition combine_sequences :: "nat list \<Rightarrow> obs list \<Rightarrow> error + (obs \<times> nat list)" where
  "combine_sequences split_index_list seqs =
     (case collect (list_get seqs) split_index_list of
        Inl e \<Rightarrow> Inl e
      | Inr sequences_fold \<Rightarrow> Inr (concat sequences_fold, map length sequences_fold))"

text \<open>
  The loop over the folds for one \<open>n_components\<close>. The state is the list \<open>logsL\<close> and
  the local variable \<open>model\<close> (\<open>None\<close> while it holds no fitted model). A fold whose fit
  raises leaves \<open>model\<close> as it was; a fold whose fit succeeds and whose scoring raises has
  already assigned it.
\<close>

fun cv_fold_loop ::
  "'p hmmlearn \<Rightarrow> selector \<Rightarrow> int \<Rightarrow> (nat list \<times> nat list) list \<Rightarrow>
   pyfloat list \<times> 'p hmm option \<Rightarrow> pyfloat list \<times> 'p hmm option" where
  "cv_fold_loop lib s n [] st = st"
| "cv_fold_loop lib s n ((train_index, test_index) # folds) (logsL, model) =
     (case combine_sequences train_index (sequences s) of
        Inl e \<Rightarrow> cv_fold_loop lib s n folds (logsL, model)
      | Inr (training_X, training_lengths) \<Rightarrow>
         (case combine_sequences test_index (sequences s) of
            Inl e \<Rightarrow> cv_fold_loop lib s n folds (logsL, model)
          | Inr (test_X, test_lengths) \<Rightarrow>
             (case GaussianHMM_fit lib n (random_state s) training_X training_lengths of
                Inl e \<Rightarrow> cv_fold_loop lib s n folds (logsL, model)
              | Inr m \<Rightarrow>
                 (case model_score lib (Some m) test_X test_lengths of
                    Inl e \<Rightarrow> cv_fold_loop lib s n folds (logsL, Some m)
                  | Inr logL \<Rightarrow> cv_fold_loop lib s n folds (logsL @ [logL], Some m)))))"

text \<open>
  The folds iterated when the word has more than one sequence (or none):
  \<open>KFold(n_splits=min(len(self.sequences), 3)).split(self.sequences)\<close>.
\<close>

definition cv_folds :: "splitter \<Rightarrow> selector \<Rightarrow> error + (nat list \<times> nat list) list" where
  "cv_folds split_method s =
     split_method (min (length (sequences s)) 3) (length (sequences s))"

text \<open>
  The samples collected for one \<open>n_components\<close>, with the value of \<open>model\<close> afterwards.
  In the one-sequence branch the \<open>continue\<close> of the handler is the empty sample list,
  which the caller skips in the same way. An exception of the splitter is outside every
  \<open>try\<close>.
\<close>

definition cv_samples ::
  "splitter \<Rightarrow> 'p hmmlearn \<Rightarrow> selector \<Rightarrow> int \<Rightarrow> 'p hmm option \<Rightarrow>
   error + (pyfloat list \<times> 'p hmm option)" where
  "cv_samples split_method lib s n model0 =
     (if length (sequences s) = 1 then
        (let model = base_model lib s n in
         case model_score lib model (X_obs s) (lengths s) of
           Inl e \<Rightarrow> Inr ([], model)
         | Inr logL \<Rightarrow> Inr ([logL], model))
      else
        (case cv_folds split_method s of
           Inl e \<Rightarrow> Inl e
         | Inr folds \<Rightarrow> Inr (cv_fold_loop lib s n folds ([], model0))))"

fun cv_loop ::
  "splitter \<Rightarrow> float_arith \<Rightarrow> 'p hmmlearn \<Rightarrow> selector \<Rightarrow> int list \<Rightarrow>
   pyfloat \<times> 'p hmm option \<times> 'p hmm option \<Rightarrow>
   error + (pyfloat \<times> 'p hmm option \<times> 'p hmm option)" where
  "cv_loop split_method ar lib s [] st = Inr st"
| "cv_loop split_method ar lib s (n # ns) (select_avg_logL, select_model, model0) =
     (case cv_samples split_method lib s n model0 of
        Inl e \<Rightarrow> Inl e
      | Inr (logsL, model) \<Rightarrow>
          if logsL = []
          then cv_loop split_method ar lib s ns (select_avg_logL, select_model, model)
          else
            (let avg_logL = f_mean ar logsL in
             if py_lt select_avg_logL avg_logL
             then cv_loop split_method ar lib s ns (avg_logL, model, model)
             else cv_loop split_method ar lib s ns (select_avg_logL, select_model, model)))"

definition SelectorCV_select ::
  "splitter \<Rightarrow> float_arith \<Rightarrow> 'p hmmlearn \<Rightarrow> selector \<Rightarrow> error + 'p hmm option" where
  "SelectorCV_select split_method ar lib s =
     (case cv_loop split_method ar lib s [min_n_components s .. max_n_components s]
             (NegInf, None, None) of
        Inl e \<Rightarrow> Inl e
      | Inr (select_avg_logL, select_model, model) \<Rightarrow> Inr select_model)"

subsection \<open>The strategies behind one \<open>select\<close>\<close>

datatype strategy = Constant | BIC | DIC | CrossValidation

fun select ::
  "strategy \<Rightarrow> splitter \<Rightarrow> float_arith \<Rightarrow> 'p hmmlearn \<Rightarrow> selector \<Rightarrow> error + 'p hmm option"
where
  "select Constant split_method ar lib s = Inr (SelectorConstant_select lib s)"
| "select BIC split_method ar lib s = Inr (SelectorBIC_select ar lib s)"
| "select DIC split_method ar lib s = Inr (SelectorDIC_select ar lib s)"
| "select CrossValidation split_method ar lib s = SelectorCV_select split_method ar lib s"

section \<open>my_recognizer.py\<close>

type_synonym row = "(string \<times> pyfloat) list"

text \<open>
  The loop over \<open>models.items()\<close> for one test sequence. The state is the local
  variable \<open>logL\<close> (\<open>None\<close> while it was never assigned), the dictionary
  \<open>probability\<close>, \<open>select_logL\<close> and \<open>guess\<close>. The comparison after the
  \<open>try\<close> reads \<open>logL\<close> whatever happened in the \<open>try\<close>.
\<close>

fun recognize_words ::
  "'p hmmlearn \<Rightarrow> obs \<Rightarrow> nat list \<Rightarrow> (string \<times> 'p hmm option) list \<Rightarrow>
   pyfloat option \<times> row \<times> pyfloat \<times> string option \<Rightarrow>
   error + (pyfloat option \<times> row \<times> pyfloat \<times> string option)" where
  "recognize_words lib X' lens [] st = Inr st"
| "recognize_words lib X' lens ((word, model) # rest) (logL0, probability0, select_logL, guess) =
     (let (logL, probability) =
            (case model_score lib model X' lens of
               Inr l \<Rightarrow> (Some l, dict_set probability0 word l)
             | Inl e \<Rightarrow> (logL0, dict_set probability0 word NegInf))
      in case logL of
           None \<Rightarrow> Inl UnboundLocalError
         | Some l \<Rightarrow>
             if py_lt select_logL l
             then recognize_words lib X' lens rest (logL, probability, l, Some word)
             else recognize_words lib X' lens rest (logL, probability, select_logL, guess))"

text \<open>
  The loop over the test sequences. \<open>logL\<close> is a local of the whole function, so it
  survives from one test sequence to the next.
\<close>

fun recognize_loop ::
  "'p hmmlearn \<Rightarrow> (string \<times> 'p hmm option) list \<Rightarrow> (obs \<times> nat list) list \<Rightarrow>
   pyfloat option \<times> row list \<times> string option list \<Rightarrow>
   error + (pyfloat option \<times> row list \<times> string option list)" where
  "recognize_loop lib models [] st = Inr st"
| "recognize_loop lib models ((X', lens) # rest) (logL0, probabilities, guesses) =
     (case recognize_words lib X' lens models (logL0, [], NegInf, None) of
        Inl e \<Rightarrow> Inl e
      | Inr (logL, probability, select_logL, guess) \<Rightarrow>
          recognize_loop lib models rest
            (logL, probabilities @ [probability], guesses @ [guess]))"

definition recognize ::
  "'p hmmlearn \<Rightarrow> (string \<times> 'p hmm option) list \<Rightarrow> (obs \<times> nat list) list \<Rightarrow>
   error + (row list \<times> string option list)" where
  "recognize lib models test_set =
     (case recognize_loop lib models test_set (None, [], []) of
        Inl e \<Rightarrow> Inl e
      | Inr (logL, probabilities, guesses) \<Rightarrow> Inr (probabilities, guesses))"

section \<open>Running-best tracking, abstractly\<close>

text \<open>
  The three selector loops keep a running best value and the model that achieved it, and
  replace both when a candidate is strictly better. \<open>track\<close> is that loop over the
  list of per-candidate outcomes (\<open>None\<close> for a candidate that was skipped); the loops
  of the source are shown equal to it below.
\<close>

fun track ::
  "(pyfloat \<Rightarrow> pyfloat \<Rightarrow> bool) \<Rightarrow> (pyfloat \<times> 'a) option list \<Rightarrow> pyfloat \<times> 'a \<Rightarrow>
   pyfloat \<times> 'a" where
  "track better [] st = st"
| "track better (None # rs) st = track better rs st"
| "track better (Some (v, m) # rs) (sv, sm) =
     (if better v sv then track better rs (v, m) else track better rs (sv, sm))"

text \<open>
  What the two comparisons used by the loops (\<open>a < b\<close> and \<open>a > b\<close>) have in common:
  a strict order that is total on the values other than not-a-number and never holds
  with not-a-number on either side.
\<close>

definition float_order :: "(pyfloat \<Rightarrow> pyfloat \<Rightarrow> bool) \<Rightarrow> bool" where
  "float_order better \<longleftrightarrow>
     (\<forall>a b c. better a b \<longrightarrow> better b c \<longrightarrow> better a c) \<and>
     (\<forall>a. \<not> better a a) \<and>
     (\<forall>a b. a \<noteq> NaN \<longrightarrow> b \<noteq> NaN \<longrightarrow> better a b \<or> a = b \<or> better b a) \<and>
     (\<forall>a b. better a b \<longrightarrow> a \<noteq> NaN \<and> b \<noteq> NaN)"

section \<open>The recognizer as the spec words it\<close>

text \<open>
  The value the spec has recorded for a word: its log-likelihood, or negative infinity
  when scoring fails. \<open>recognize_words_spec\<close> follows the spec's wording of the scan:
  the running-best comparison always uses the value just recorded for this word.
\<close>

definition recorded :: "'p hmmlearn \<Rightarrow> obs \<Rightarrow> nat list \<Rightarrow> 'p hmm option \<Rightarrow> pyfloat" where
  "recorded lib X' lens model =
     (case model_score lib model X' lens of Inr l \<Rightarrow> l | Inl e \<Rightarrow> NegInf)"

fun recognize_words_spec ::
  "'p hmmlearn \<Rightarrow> obs \<Rightarrow> nat list \<Rightarrow> (string \<times> 'p hmm option) list \<Rightarrow>
   row \<times> pyfloat \<times> string option \<Rightarrow> row \<times> pyfloat \<times> string option" where
  "recognize_words_spec lib X' lens [] st = st"
| "recognize_words_spec lib X' lens ((word, model) # rest) (probability0, best, best_word) =
     (let value = recorded lib X' lens model;
          probability = dict_set probability0 word value
      in if py_lt best value
         then recognize_words_spec lib X' lens rest (probability, value, Some word)
         else recognize_words_spec lib X' lens rest (probability, best, best_word))"

definition recognize_spec ::
  "'p hmmlearn \<Rightarrow> (string \<times> 'p hmm option) list \<Rightarrow> (obs \<times> nat list) list \<Rightarrow>
   row list \<times> string option list" where
  "recognize_spec lib models test_set =
     (let results = map (\<lambda>(X', lens). recognize_words_spec lib X' lens models ([], NegInf, None))
                      test_set
      in (map fst results, map (\<lambda>r. snd (snd r)) results))"


section \<open>Cross-validation: one fold, one candidate\<close>

text \<open>
  \<open>fold_outcome\<close> is the body of the \<open>try\<close> for one fold: the model fitted on the
  training part and the outcome of scoring it on the held-out part, or the exception that
  ended the body before a model was assigned. \<open>cv_result\<close> is what a candidate
  contributes to the running maximum: the mean of its samples and the value of \<open>model\<close>
  after its folds, or nothing when it has no sample.
\<close>

definition fold_outcome ::
  "'p hmmlearn \<Rightarrow> selector \<Rightarrow> int \<Rightarrow> nat list \<times> nat list \<Rightarrow>
   error + ('p hmm \<times> (error + pyfloat))"
where
  "fold_outcome lib s n fd =
     (case combine_sequences (fst fd) (sequences s) of
        Inl e \<Rightarrow> Inl e
      | Inr (training_X, training_lengths) \<Rightarrow>
         (case combine_sequences (snd fd) (sequences s) of
            Inl e \<Rightarrow> Inl e
          | Inr (test_X, test_lengths) \<Rightarrow>
             (case GaussianHMM_fit lib n (random_state s) training_X training_lengths of
                Inl e \<Rightarrow> Inl e
              | Inr m \<Rightarrow> Inr (m, model_score lib (Some m) test_X test_lengths))))"

definition cv_result ::
  "splitter \<Rightarrow> float_arith \<Rightarrow> 'p hmmlearn \<Rightarrow> selector \<Rightarrow> int \<Rightarrow>
   (pyfloat \<times> 'p hmm option) option" where
  "cv_result split_method ar lib s n =
     (case cv_samples split_method lib s n None of
        Inl e \<Rightarrow> None
      | Inr (logsL, model) \<Rightarrow> if logsL = [] then None else Some (f_mean ar logsL, model))"

text \<open>
  The sample of one fold as the spec words it: build the observations of the training
  sequences and of the held-out sequences, fit a model with \<open>n\<close> states on the training
  observations, score it on the held-out observations; a fold that fails to fit or to
  score gives no sample.
\<close>

definition held_out_sample ::
  "'p hmmlearn \<Rightarrow> selector \<Rightarrow> int \<Rightarrow> nat list \<times> nat list \<Rightarrow> pyfloat option" where
  "held_out_sample lib s n fd =
     (let training = map (\<lambda>i. sequences s ! i) (fst fd);
          held_out = map (\<lambda>i. sequences s ! i) (snd fd)
      in case GaussianHMM_fit lib n (random_state s) (concat training) (map length training) of
           Inl e \<Rightarrow> None
         | Inr m \<Rightarrow> score_impl lib m (concat held_out) (map length held_out))"

section \<open>Concrete inputs\<close>

text \<open>
  An arithmetic to evaluate concrete inputs with: exact on finite values, with the
  usual rules for the infinities and not-a-number, and with no conversion of an integer
  of magnitude \<open>2 ^ 1024\<close> or more. On the small integers and halves used below it
  computes what binary floating point computes.
\<close>

fun ideal_add :: "pyfloat \<Rightarrow> pyfloat \<Rightarrow> pyfloat" where
  "ideal_add NaN y = NaN"
| "ideal_add x NaN = NaN"
| "ideal_add PosInf NegInf = NaN"
| "ideal_add NegInf PosInf = NaN"
| "ideal_add PosInf y = PosInf"
| "ideal_add x PosInf = PosInf"
| "ideal_add NegInf y = NegInf"
| "ideal_add x NegInf = NegInf"
| "ideal_add (Fin a) (Fin b) = Fin (a + b)"

fun ideal_neg :: "pyfloat \<Rightarrow> pyfloat" where
  "ideal_neg NaN = NaN"
| "ideal_neg NegInf = PosInf"
| "ideal_neg PosInf = NegInf"
| "ideal_neg (Fin a) = Fin (- a)"

fun ideal_mul :: "pyfloat \<Rightarrow> pyfloat \<Rightarrow> pyfloat" where
  "ideal_mul NaN y = NaN"
| "ideal_mul x NaN = NaN"
| "ideal_mul (Fin a) (Fin b) = Fin (a * b)"
| "ideal_mul (Fin a) PosInf = (if a = 0 then NaN else if 0 < a then PosInf else NegInf)"
| "ideal_mul (Fin a) NegInf = (if a = 0 then NaN else if 0 < a then NegInf else PosInf)"
| "ideal_mul PosInf (Fin b) = (if b = 0 then NaN else if 0 < b then PosInf else NegInf)"
| "ideal_mul NegInf (Fin b) = (if b = 0 then NaN else if 0 < b then NegInf else PosInf)"
| "ideal_mul PosInf PosInf = PosInf"
| "ideal_mul NegInf NegInf = PosInf"
| "ideal_mul PosInf NegInf = NegInf"
| "ideal_mul NegInf PosInf = NegInf"

fun ideal_div_count :: "pyfloat \<Rightarrow> nat \<Rightarrow> pyfloat" where
  "ideal_div_count (Fin a) n = Fin (a / real n)"
| "ideal_div_count x n = x"

definition ideal_arith :: float_arith where
  "ideal_arith = \<lparr>f_add = ideal_add,
      f_sub = (\<lambda>x y. ideal_add x (ideal_neg y)),
      f_mul = ideal_mul,
      f_of_int = (\<lambda>i. if \<bar>i\<bar> < 2 ^ 1024 then Some (Fin (real_of_int i)) else None),
      f_log = (\<lambda>n. Fin (ln (real n))),
      f_sum = (\<lambda>xs. foldl ideal_add (Fin 0) xs),
      f_div_count = ideal_div_count,
      f_mean = (\<lambda>xs. ideal_div_count (foldl ideal_add (Fin 0) xs) (length xs))\<rparr>"

definition demo_lib :: "unit hmmlearn" where
  "demo_lib = \<lparr>fit_impl = (\<lambda>n seed X' lens. if n = 3 then None else Some (1, ())),
               score_impl = (\<lambda>m X' lens. if n_components m = 2 then Some (Fin (- 10))
                                           else if n_components m = 4 then Some (Fin (- 10))
                                           else None)\<rparr>"

definition demo_selector :: selector where
  "demo_selector = \<lparr>words = [(''A'', [[[0], [1]], [[2]]])],
      hwords = [(''A'', ([[0], [1], [2]], [2, 1]))],
      sequences = [[[0], [1]], [[2]]], X_obs = [[0], [1], [2]], lengths = [2, 1],
      this_word = ''A'', n_constant = 3, min_n_components = 2, max_n_components = 4,
      random_state = 14, verbose = False\<rparr>"


definition frames_lib :: "unit hmmlearn" where
  "frames_lib = \<lparr>fit_impl = (\<lambda>n seed X' lens. Some (1, ())),
      score_impl = (\<lambda>m X' lens. if n_components m = 3 \<and> X' = [[5]] then None
                      else Some (Fin (real (length X') * real_of_int (n_components m))))\<rparr>"

definition vocab3_selector :: selector where
  "vocab3_selector = \<lparr>words = [(''A'', [[[0], [1]], [[2]]]), (''B'', [[[5]]]), (''C'', [[[7], [8]]])],
      hwords = [(''A'', ([[0], [1], [2]], [2, 1])), (''B'', ([[5]], [1])), (''C'', ([[7], [8]], [2]))],
      sequences = [[[0], [1]], [[2]]], X_obs = [[0], [1], [2]], lengths = [2, 1],
      this_word = ''A'', n_constant = 3, min_n_components = 2, max_n_components = 4,
      random_state = 14, verbose = False\<rparr>"


definition rec_lib :: "unit hmmlearn" where
  "rec_lib = \<lparr>fit_impl = (\<lambda>n seed X' lens. Some (1, ())),
      score_impl = (\<lambda>m X' lens.
         if X' = [[0]] then Some (Fin (- real_of_int (n_components m)))
         else if X' = [[1]] then (if n_components m = 2 then None else Some (Fin (- 5)))
         else None)\<rparr>"

definition model_A :: "unit hmm" where
  "model_A = \<lparr>n_components = 2, n_features = 1, params = ()\<rparr>"

definition model_B :: "unit hmm" where
  "model_B = \<lparr>n_components = 3, n_features = 1, params = ()\<rparr>"


definition cv_lib :: "obs hmmlearn" where
  "cv_lib = \<lparr>fit_impl = (\<lambda>n seed X' lens. if X' = [[9]] then None else Some (1, X')),
      score_impl = (\<lambda>m X' lens. if X' = [] then None
                      else Some (Fin (- (real_of_int (n_components m) * real (length X')))))\<rparr>"

definition cv_selector :: selector where
  "cv_selector = \<lparr>words = [(''A'', [[[9]], [[1], [2]]])],
      hwords = [(''A'', ([[9], [1], [2]], [1, 2]))],
      sequences = [[[9]], [[1], [2]]], X_obs = [[9], [1], [2]], lengths = [1, 2],
      this_word = ''A'', n_constant = 3, min_n_components = 2, max_n_components = 3,
      random_state = 14, verbose = False\<rparr>"

definition single_selector :: selector where
  "single_selector = \<lparr>words = [(''A'', [[[1], [2]]])],
      hwords = [(''A'', ([[1], [2]], [2]))],
      sequences = [[[1], [2]]], X_obs = [[1], [2]], lengths = [2],
      this_word = ''A'', n_constant = 3, min_n_components = 2, max_n_components = 4,
      random_state = 14, verbose = False\<rparr>"

definition four_selector :: selector where
  "four_selector = \<lparr>words = [(''A'', [[[1]], [[2]], [[3]], [[4]]])],
      hwords = [(''A'', ([[1], [2], [3], [4]], [1, 1, 1, 1]))],
      sequences = [[[1]], [[2]], [[3]], [[4]]], X_obs = [[1], [2], [3], [4]],
      lengths = [1, 1, 1, 1],
      this_word = ''A'', n_constant = 3, min_n_components = 2, max_n_components = 4,
      random_state = 14, verbose = False\<rparr>"


definition vocab2_selector :: selector where
  "vocab2_selector = \<lparr>words = [(''A'', [[[0]]]), (''B'', [[[2]]])],
      hwords = [(''A'', ([[0]], [1])), (''B'', ([[2]], [1]))],
      sequences = [[[0]]], X_obs = [[0]], lengths = [1],
      this_word = ''A'', n_constant = 15, min_n_components = 2, max_n_components = 4,
      random_state = 14, verbose = False\<rparr>"

text \<open>
  A library whose scoring returns negative infinity, without raising, on the
  observations \<open>[[0]]\<close>.
\<close>

definition neginf_lib :: "unit hmmlearn" where
  "neginf_lib = \<lparr>fit_impl = (\<lambda>n seed X' lens. Some (1, ())),
      score_impl = (\<lambda>m X' lens. if X' = [[0]] then Some NegInf else Some (Fin (- 1)))\<rparr>"

text \<open>A word whose only sequence has no frame.\<close>

definition empty_selector :: selector where
  "empty_selector = \<lparr>words = [(''A'', [[]])],
      hwords = [(''A'', ([], [0]))],
      sequences = [[]], X_obs = [], lengths = [0],
      this_word = ''A'', n_constant = 3, min_n_components = 2, max_n_components = 4,
      random_state = 14, verbose = False\<rparr>"

text \<open>A library whose fit succeeds on the full observations of \<open>cv_selector\<close> only.\<close>

definition full_only_lib :: "obs hmmlearn" where
  "full_only_lib = \<lparr>fit_impl = (\<lambda>n seed X' lens. if X' = [[9], [1], [2]] then Some (1, X') else None),
      score_impl = (\<lambda>m X' lens. Some (Fin 0))\<rparr>"

text \<open>A word whose only candidate state count is \<open>2 ^ 512\<close>.\<close>

definition huge_selector :: selector where
  "huge_selector = \<lparr>words = [(''A'', [[[0]]])],
      hwords = [(''A'', ([[0]], [1]))],
      sequences = [[[0]]], X_obs = [[0]], lengths = [1],
      this_word = ''A'', n_constant = 3, min_n_components = 2 ^ 512,
      max_n_components = 2 ^ 512, random_state = 14, verbose = False\<rparr>"

text \<open>A word with two equal one-frame sequences.\<close>

definition twin_selector :: selector where
  "twin_selector = \<lparr>words = [(''A'', [[[0]], [[0]]])],
      hwords = [(''A'', ([[0], [0]], [1, 1]))],
      sequences = [[[0]], [[0]]], X_obs = [[0], [0]], lengths = [1, 1],
      this_word = ''A'', n_constant = 3, min_n_components = 2, max_n_components = 4,
      random_state = 14, verbose = False\<rparr>"

section \<open>Properties of the running-best loop\<close>

lemma py_lt_trans: "py_lt a b \<Longrightarrow> py_lt b c \<Longrightarrow> py_lt a c"
  by (cases a; cases b; cases c) auto

lemma py_lt_irrefl [simp]: "\<not> py_lt a a"
  by (cases a) auto

lemma py_lt_total: "a \<noteq> NaN \<Longrightarrow> b \<noteq> NaN \<Longrightarrow> py_lt a b \<or> a = b \<or> py_lt b a"
  by (cases a; cases b) auto

lemma py_lt_not_NaN: "py_lt a b \<Longrightarrow> a \<noteq> NaN \<and> b \<noteq> NaN"
  by (cases a; cases b) auto

lemma py_lt_NaN_right [simp]: "\<not> py_lt a NaN"
  by (cases a) auto

lemma py_lt_NegInf_right [simp]: "\<not> py_lt a NegInf"
  by (cases a) auto

lemma py_lt_PosInf_left [simp]: "\<not> py_lt PosInf a"
  by simp

lemma float_order_less: "float_order py_lt"
  unfolding float_order_def
  using py_lt_trans py_lt_total py_lt_not_NaN by (auto; blast)

lemma float_order_greater: "float_order (\<lambda>a b. py_lt b a)"
  unfolding float_order_def
  using py_lt_trans py_lt_total py_lt_not_NaN by (auto; blast)

lemma track_split:
  assumes fo: "float_order better" and sv: "sv \<noteq> NaN"
  shows "(track better rs (sv, sm) = (sv, sm) \<and>
          (\<forall>v m. Some (v, m) \<in> set rs \<longrightarrow> \<not> better v sv))
       \<or> (\<exists>pre v m post. rs = pre @ Some (v, m) # post \<and>
            track better rs (sv, sm) = (v, m) \<and> better v sv \<and>
            (\<forall>v' m'. Some (v', m') \<in> set pre \<longrightarrow> better v v' \<or> v' = NaN) \<and>
            (\<forall>v' m'. Some (v', m') \<in> set post \<longrightarrow> \<not> better v' v))"
  using sv
proof (induction rs arbitrary: sv sm)
  case Nil
  show ?case by simp
next
  case (Cons r rs)
  from fo have tr: "\<And>a b c. better a b \<Longrightarrow> better b c \<Longrightarrow> better a c"
    and tot: "\<And>a b. a \<noteq> NaN \<Longrightarrow> b \<noteq> NaN \<Longrightarrow> better a b \<or> a = b \<or> better b a"
    and nn: "\<And>a b. better a b \<Longrightarrow> a \<noteq> NaN \<and> b \<noteq> NaN"
    unfolding float_order_def by blast+
  note sv = Cons.prems
  show ?case
  proof (cases r)
    case None
    from Cons.IH [OF sv, of sm] show ?thesis
    proof (elim disjE exE conjE)
      assume "track better rs (sv, sm) = (sv, sm)"
        and "\<forall>v m. Some (v, m) \<in> set rs \<longrightarrow> \<not> better v sv"
      then show ?thesis using None by auto
    next
      fix pre v m post
      assume h: "rs = pre @ Some (v, m) # post" "track better rs (sv, sm) = (v, m)"
        "better v sv"
        "\<forall>v' m'. Some (v', m') \<in> set pre \<longrightarrow> better v v' \<or> v' = NaN"
        "\<forall>v' m'. Some (v', m') \<in> set post \<longrightarrow> \<not> better v' v"
      have "r # rs = (None # pre) @ Some (v, m) # post" using h(1) None by simp
      moreover have "track better (r # rs) (sv, sm) = (v, m)" using h(2) None by simp
      moreover have "\<forall>v' m'. Some (v', m') \<in> set (None # pre) \<longrightarrow> better v v' \<or> v' = NaN"
        using h(4) by simp
      ultimately show ?thesis using h(3,5) by blast
    qed
  next
    case (Some vm)
    obtain v0 m0 where vm: "vm = (v0, m0)" by (cases vm)
    show ?thesis
    proof (cases "better v0 sv")
      case True
      then have v0: "v0 \<noteq> NaN" using nn by blast
      from Cons.IH [OF v0, of m0] show ?thesis
      proof (elim disjE exE conjE)
        assume a: "track better rs (v0, m0) = (v0, m0)"
          and b: "\<forall>v m. Some (v, m) \<in> set rs \<longrightarrow> \<not> better v v0"
        have "r # rs = [] @ Some (v0, m0) # rs" using Some vm by simp
        moreover have "track better (r # rs) (sv, sm) = (v0, m0)"
          using a True Some vm by simp
        moreover have "\<forall>v' m'. Some (v', m') \<in> set [] \<longrightarrow> better v0 v' \<or> v' = NaN" by simp
        ultimately show ?thesis using True b by blast
      next
        fix pre v m post
        assume h: "rs = pre @ Some (v, m) # post" "track better rs (v0, m0) = (v, m)"
          "better v v0"
          "\<forall>v' m'. Some (v', m') \<in> set pre \<longrightarrow> better v v' \<or> v' = NaN"
          "\<forall>v' m'. Some (v', m') \<in> set post \<longrightarrow> \<not> better v' v"
        have "r # rs = (Some (v0, m0) # pre) @ Some (v, m) # post" using h(1) Some vm by simp
        moreover have "track better (r # rs) (sv, sm) = (v, m)"
          using h(2) True Some vm by simp
        moreover have "better v sv" using h(3) True tr by blast
        moreover have "\<forall>v' m'. Some (v', m') \<in> set (Some (v0, m0) # pre)
            \<longrightarrow> better v v' \<or> v' = NaN"
          using h(3,4) by auto
        ultimately show ?thesis using h(5) by blast
      qed
    next
      case False
      from Cons.IH [OF sv, of sm] show ?thesis
      proof (elim disjE exE conjE)
        assume a: "track better rs (sv, sm) = (sv, sm)"
          and b: "\<forall>v m. Some (v, m) \<in> set rs \<longrightarrow> \<not> better v sv"
        have "track better (r # rs) (sv, sm) = (sv, sm)" using a False Some vm by simp
        moreover have "\<forall>v m. Some (v, m) \<in> set (r # rs) \<longrightarrow> \<not> better v sv"
          using b False Some vm by auto
        ultimately show ?thesis by blast
      next
        fix pre v m post
        assume h: "rs = pre @ Some (v, m) # post" "track better rs (sv, sm) = (v, m)"
          "better v sv"
          "\<forall>v' m'. Some (v', m') \<in> set pre \<longrightarrow> better v v' \<or> v' = NaN"
          "\<forall>v' m'. Some (v', m') \<in> set post \<longrightarrow> \<not> better v' v"
        have "better v v0 \<or> v0 = NaN"
        proof (cases "v0 = NaN")
          case True
          then show ?thesis by simp
        next
          case nn0: False
          from tot [OF nn0 sv] False have "v0 = sv \<or> better sv v0" by blast
          with h(3) tr show ?thesis by blast
        qed
        then have "\<forall>v' m'. Some (v', m') \<in> set (Some (v0, m0) # pre)
            \<longrightarrow> better v v' \<or> v' = NaN"
          using h(4) by auto
        moreover have "r # rs = (Some (v0, m0) # pre) @ Some (v, m) # post"
          using h(1) Some vm by simp
        moreover have "track better (r # rs) (sv, sm) = (v, m)"
          using h(2) False Some vm by simp
        ultimately show ?thesis using h(3,5) by blast
      qed
    qed
  qed
qed

lemma upto_split_sorted:
  assumes "[lo..hi] = pre @ n # post"
  shows "lo \<le> n \<and> n \<le> hi \<and> (\<forall>x\<in>set pre. lo \<le> x \<and> x < n) \<and> (\<forall>x\<in>set post. n < x \<and> x \<le> hi)"
proof -
  have s: "sorted_wrt (<) (pre @ n # post)"
    using assms sorted_wrt_upto by metis
  have m: "set (pre @ n # post) = {lo..hi}" using assms set_upto by metis
  from s have a: "\<forall>x\<in>set pre. x < n" and b: "\<forall>x\<in>set post. n < x"
    by (auto simp: sorted_wrt_append)
  from m have c: "\<forall>x \<in> set pre \<union> set post \<union> {n}. lo \<le> x \<and> x \<le> hi" by auto
  show ?thesis using a b c by auto
qed

lemma track_upto:
  assumes fo: "float_order better" and sv: "sv \<noteq> NaN"
  shows "(track better (map f [lo..hi]) (sv, sm) = (sv, sm) \<and>
          (\<forall>n v m. lo \<le> n \<and> n \<le> hi \<and> f n = Some (v, m) \<longrightarrow> \<not> better v sv))
       \<or> (\<exists>n v m. lo \<le> n \<and> n \<le> hi \<and> f n = Some (v, m) \<and>
            track better (map f [lo..hi]) (sv, sm) = (v, m) \<and> better v sv \<and>
            (\<forall>n' v' m'. lo \<le> n' \<and> n' \<le> hi \<and> f n' = Some (v', m') \<longrightarrow>
               \<not> better v' v \<and> (n' < n \<longrightarrow> better v v' \<or> v' = NaN)))"
proof -
  from track_split [OF fo sv, of "map f [lo..hi]" sm] show ?thesis
  proof (elim disjE exE conjE)
    assume a: "track better (map f [lo..hi]) (sv, sm) = (sv, sm)"
      and b: "\<forall>v m. Some (v, m) \<in> set (map f [lo..hi]) \<longrightarrow> \<not> better v sv"
    have "\<forall>n v m. lo \<le> n \<and> n \<le> hi \<and> f n = Some (v, m) \<longrightarrow> \<not> better v sv"
    proof (intro allI impI)
      fix n v m assume h: "lo \<le> n \<and> n \<le> hi \<and> f n = Some (v, m)"
      then have "n \<in> set [lo..hi]" by simp
      then have "f n \<in> set (map f [lo..hi])" by (simp del: set_upto)
      with h b show "\<not> better v sv" by metis
    qed
    with a show ?thesis by blast
  next
    fix pre v m post
    assume h: "map f [lo..hi] = pre @ Some (v, m) # post"
      "track better (map f [lo..hi]) (sv, sm) = (v, m)" "better v sv"
      "\<forall>v' m'. Some (v', m') \<in> set pre \<longrightarrow> better v v' \<or> v' = NaN"
      "\<forall>v' m'. Some (v', m') \<in> set post \<longrightarrow> \<not> better v' v"
    from h(1) obtain pn n qn where ns: "[lo..hi] = pn @ n # qn"
      and pre: "pre = map f pn" and fn: "f n = Some (v, m)" and post: "post = map f qn"
      by (auto simp: map_eq_append_conv map_eq_Cons_conv)
    note sp = upto_split_sorted [OF ns]
    from fo have irr: "\<And>a. \<not> better a a" and tr: "\<And>a b c. better a b \<Longrightarrow> better b c \<Longrightarrow> better a c"
      and nn: "\<And>a b. better a b \<Longrightarrow> a \<noteq> NaN \<and> b \<noteq> NaN"
      unfolding float_order_def by blast+
    have "\<forall>n' v' m'. lo \<le> n' \<and> n' \<le> hi \<and> f n' = Some (v', m') \<longrightarrow>
               \<not> better v' v \<and> (n' < n \<longrightarrow> better v v' \<or> v' = NaN)"
    proof (intro allI impI)
      fix n' v' m' assume g: "lo \<le> n' \<and> n' \<le> hi \<and> f n' = Some (v', m')"
      then have "n' \<in> set (pn @ n # qn)" using ns set_upto by (metis atLeastAtMost_iff)
      then consider "n' \<in> set pn" | "n' = n" | "n' \<in> set qn" by auto
      then show "\<not> better v' v \<and> (n' < n \<longrightarrow> better v v' \<or> v' = NaN)"
      proof cases
        case 1
        then have "Some (v', m') \<in> set pre" using pre g by force
        then have b: "better v v' \<or> v' = NaN" using h(4) by blast
        then have "\<not> better v' v" using irr tr nn by blast
        with b show ?thesis by simp
      next
        case 2
        then show ?thesis using g fn irr by simp
      next
        case 3
        then have "Some (v', m') \<in> set post" using post g by force
        moreover have "\<not> n' < n" using 3 sp by auto
        ultimately show ?thesis using h(5) by blast
      qed
    qed
    with sp fn h(2,3) show ?thesis by blast
  qed
qed

lemma bic_loop_track:
  "bic_loop ar lib s ns st =
     track py_lt (map (\<lambda>n. case bic_body ar lib s n of Inl e \<Rightarrow> None | Inr r \<Rightarrow> Some r) ns) st"
  by (induction ns arbitrary: st) (auto split: sum.splits prod.splits)

lemma dic_loop_track:
  "dic_loop ar lib s ns st =
     track (\<lambda>a b. py_lt b a)
       (map (\<lambda>n. case dic_body ar lib s n of Inl e \<Rightarrow> None | Inr r \<Rightarrow> Some r) ns) st"
  by (induction ns arbitrary: st) (auto split: sum.splits prod.splits)

section \<open>Facts about the concrete inputs\<close>

lemma small_int_converts: "\<bar>i\<bar> < 1024 \<Longrightarrow> \<bar>i :: int\<bar> < 2 ^ 1024"
proof -
  have "(2::int) ^ 10 \<le> 2 ^ 1024" by (rule power_increasing) simp_all
  then have "(1024::int) \<le> 2 ^ 1024" by simp
  then show "\<bar>i\<bar> < 1024 \<Longrightarrow> \<bar>i\<bar> < 2 ^ 1024" by linarith
qed

lemma ideal_arith_ops:
  "f_add ideal_arith = ideal_add" "f_sub ideal_arith = (\<lambda>x y. ideal_add x (ideal_neg y))"
  "f_mul ideal_arith = ideal_mul"
  "\<bar>i\<bar> < 1024 \<Longrightarrow> f_of_int ideal_arith i = Some (Fin (real_of_int i))"
  "f_log ideal_arith k = Fin (ln (real k))"
  "f_sum ideal_arith xs = foldl ideal_add (Fin 0) xs"
  "f_div_count ideal_arith = ideal_div_count"
  "f_mean ideal_arith xs = ideal_div_count (foldl ideal_add (Fin 0) xs) (length xs)"
  by (simp_all add: ideal_arith_def small_int_converts del: power_numeral)

lemma huge_int_fails:
  "f_of_int ideal_arith ((2 ^ 512) ^ 2 + 2 * 2 ^ 512 * 1 - 1) = None"
proof -
  have "((2::int) ^ 512) ^ 2 = 2 ^ 1024" by (simp add: power_mult [symmetric])
  moreover have "(1::int) \<le> 2 * 2 ^ 512 * 1" by simp
  ultimately have "\<not> \<bar>(2 ^ 512) ^ 2 + 2 * 2 ^ 512 * 1 - (1::int)\<bar> < 2 ^ 1024" by linarith
  then show ?thesis unfolding ideal_arith_def by (simp only: float_arith.simps if_False)
qed

lemma huge_selector_fields:
  "min_n_components huge_selector = 2 ^ 512" "max_n_components huge_selector = 2 ^ 512"
  "random_state huge_selector = 14" "X_obs huge_selector = [[0]]"
  "lengths huge_selector = [1]" "sequences huge_selector = [[[0]]]"
  by (simp_all add: huge_selector_def)

lemma demo_selector_fields:
  "min_n_components demo_selector = 2" "max_n_components demo_selector = 4"
  "random_state demo_selector = 14" "lengths demo_selector = [2, 1]"
  "X_obs demo_selector = [[0], [1], [2]]" "sequences demo_selector = [[[0], [1]], [[2]]]"
  "this_word demo_selector = ''A''"
  "hwords demo_selector = [(''A'', ([[0], [1], [2]], [2, 1]))]"
  by (simp_all add: demo_selector_def)

lemma demo_lib_fit:
  "GaussianHMM_fit demo_lib n seed X' lens =
     (if n = 3 then Inl FitFailure else Inr \<lparr>n_components = n, n_features = 1, params = ()\<rparr>)"
  by (simp add: GaussianHMM_fit_def demo_lib_def)

lemma demo_lib_score:
  "score_impl demo_lib m X' lens =
     (if n_components m = 2 \<or> n_components m = 4 then Some (Fin (- 10)) else None)"
  by (simp add: demo_lib_def)

lemma vocab2_selector_fields:
  "min_n_components vocab2_selector = 2" "max_n_components vocab2_selector = 4"
  "random_state vocab2_selector = 14" "X_obs vocab2_selector = [[0]]"
  "lengths vocab2_selector = [1]" "n_constant vocab2_selector = 15"
  "this_word vocab2_selector = ''A''"
  "hwords vocab2_selector = [(''A'', ([[0]], [1])), (''B'', ([[2]], [1]))]"
  "sequences vocab2_selector = [[[0]]]"
  by (simp_all add: vocab2_selector_def)

lemma empty_selector_fields:
  "min_n_components empty_selector = 2" "max_n_components empty_selector = 4"
  "random_state empty_selector = 14" "X_obs empty_selector = []"
  "lengths empty_selector = [0]" "sequences empty_selector = [[]]"
  by (simp_all add: empty_selector_def)

lemma neginf_lib_fit:
  "GaussianHMM_fit neginf_lib n seed X' lens
     = Inr \<lparr>n_components = n, n_features = 1, params = ()\<rparr>"
  by (simp add: GaussianHMM_fit_def neginf_lib_def)

lemma neginf_lib_score:
  "score_impl neginf_lib m X' lens = (if X' = [[0]] then Some NegInf else Some (Fin (- 1)))"
  by (simp add: neginf_lib_def)

lemma frames_lib_fit:
  "GaussianHMM_fit frames_lib n seed X' lens
     = Inr \<lparr>n_components = n, n_features = 1, params = ()\<rparr>"
  by (simp add: GaussianHMM_fit_def frames_lib_def)

lemma frames_lib_score:
  "score_impl frames_lib m X' lens =
     (if n_components m = 3 \<and> X' = [[5]] then None
      else Some (Fin (real (length X') * real_of_int (n_components m))))"
  by (simp add: frames_lib_def)

lemma twin_selector_fields:
  "min_n_components twin_selector = 2" "max_n_components twin_selector = 4"
  "random_state twin_selector = 14" "X_obs twin_selector = [[0], [0]]"
  "lengths twin_selector = [1, 1]" "sequences twin_selector = [[[0]], [[0]]]"
  by (simp_all add: twin_selector_def)

lemma rec_lib_fit:
  "GaussianHMM_fit rec_lib n seed X' lens = Inr \<lparr>n_components = n, n_features = 1, params = ()\<rparr>"
  by (simp add: GaussianHMM_fit_def rec_lib_def)

lemma full_only_lib_fit:
  "GaussianHMM_fit full_only_lib n seed X' lens =
     (if X' = [[9], [1], [2]] then Inr \<lparr>n_components = n, n_features = 1, params = X'\<rparr>
      else Inl FitFailure)"
  by (simp add: GaussianHMM_fit_def full_only_lib_def)

lemma full_only_lib_score: "score_impl full_only_lib m X' lens = Some (Fin 0)"
  by (simp add: full_only_lib_def)

section \<open>SelectorBIC\<close>

lemma bic_body_Inr_iff:
  "bic_body ar lib s n = Inr (v, mo) \<longleftrightarrow>
     (\<exists>m logL p. GaussianHMM_fit lib n (random_state s) (X_obs s) (lengths s) = Inr m \<and>
        score_impl lib m (X_obs s) (lengths s) = Some logL \<and>
        0 < sum_list (lengths s) \<and>
        f_of_int ar (n ^ 2 + 2 * n * n_features m - 1) = Some p \<and> mo = Some m \<and>
        v = f_add ar (f_mul ar (Fin (- 2)) logL) (f_mul ar p (f_log ar (sum_list (lengths s)))))"
proof -
  define N where "N = sum_list (lengths s)"
  show ?thesis
    unfolding bic_body_def base_model_def model_score_def math_log_def int_times_float_def
      Let_def N_def [symmetric]
    by (auto split: sum.splits option.splits)
qed

text \<open>
  Claim C1, amended. Call a candidate \<open>n\<close> of the inclusive range evaluated when its
  fit and its scoring succeed, the word has at least one observed frame
  (\<open>N = sum(lengths) > 0\<close>, so that \<open>math.log\<close> does not raise) and \<open>p\<close> converts
  to a float. For every evaluated candidate the loop body computes
  \<open>p = n\<^sup>2 + 2 n d - 1\<close>, with \<open>d\<close> the feature dimensionality recorded by the
  fitted model, and \<open>BIC = -2 * logL + p * ln N\<close> in float arithmetic.
  \<open>SelectorBIC.select\<close> returns none when no evaluated candidate has a BIC below
  positive infinity, in particular when every candidate fails. Otherwise it returns the
  model of an evaluated candidate whose BIC is below positive infinity, is not above the
  BIC of any evaluated candidate, and is strictly below the BIC of every evaluated
  candidate with a lower \<open>n\<close> unless that BIC is not-a-number: the first minimiser.
\<close>

theorem SelectorBIC_select_first_minimal_bic:
  fixes ar :: float_arith and lib :: "'p hmmlearn" and s :: selector
  defines "ok \<equiv> \<lambda>n m v.
     min_n_components s \<le> n \<and> n \<le> max_n_components s \<and>
     GaussianHMM_fit lib n (random_state s) (X_obs s) (lengths s) = Inr m \<and>
     0 < sum_list (lengths s) \<and>
     (\<exists>logL p. score_impl lib m (X_obs s) (lengths s) = Some logL \<and>
        f_of_int ar (n ^ 2 + 2 * n * n_features m - 1) = Some p \<and>
        v = f_add ar (f_mul ar (Fin (- 2)) logL)
              (f_mul ar p (f_log ar (sum_list (lengths s)))))"
  shows "(\<forall>n m v. ok n m v \<longrightarrow> bic_body ar lib s n = Inr (v, Some m))
       \<and> ((\<forall>n m v. ok n m v \<longrightarrow> \<not> py_lt v PosInf) \<longrightarrow> SelectorBIC_select ar lib s = None)
       \<and> ((\<exists>n m v. ok n m v \<and> py_lt v PosInf) \<longrightarrow>
            (\<exists>n m v. ok n m v \<and> py_lt v PosInf \<and> SelectorBIC_select ar lib s = Some m \<and>
               (\<forall>n' m' v'. ok n' m' v' \<longrightarrow>
                  \<not> py_lt v' v \<and> (n' < n \<longrightarrow> py_lt v v' \<or> v' = NaN))))"
proof -
  let ?f = "\<lambda>n. case bic_body ar lib s n of Inl e \<Rightarrow> None | Inr r \<Rightarrow> Some r"
  let ?lo = "min_n_components s" and ?hi = "max_n_components s"
  have sel: "SelectorBIC_select ar lib s = snd (track py_lt (map ?f [?lo..?hi]) (PosInf, None))"
    by (simp add: SelectorBIC_select_def bic_loop_track)
  have body: "bic_body ar lib s n = Inr (v, Some m)" if "ok n m v" for n m v
    using that unfolding ok_def bic_body_Inr_iff by blast
  have f_ok: "?f n = Some (v, Some m)" if "ok n m v" for n m v
    using body [OF that] by simp
  have rng: "?lo \<le> n \<and> n \<le> ?hi" if "ok n m v" for n m v
    using that unfolding ok_def by blast
  have ok_f: "\<exists>m. ok n m v \<and> mo = Some m"
    if "?lo \<le> n" "n \<le> ?hi" "?f n = Some (v, mo)" for n v mo
  proof -
    from that(3) have "bic_body ar lib s n = Inr (v, mo)" by (simp split: sum.splits)
    then show ?thesis using that(1,2) unfolding ok_def bic_body_Inr_iff by blast
  qed
  have inf: "PosInf \<noteq> NaN" by simp
  have main: "((\<forall>n m v. ok n m v \<longrightarrow> \<not> py_lt v PosInf) \<longrightarrow> SelectorBIC_select ar lib s = None)
       \<and> ((\<exists>n m v. ok n m v \<and> py_lt v PosInf) \<longrightarrow>
            (\<exists>n m v. ok n m v \<and> py_lt v PosInf \<and> SelectorBIC_select ar lib s = Some m \<and>
               (\<forall>n' m' v'. ok n' m' v' \<longrightarrow>
                  \<not> py_lt v' v \<and> (n' < n \<longrightarrow> py_lt v v' \<or> v' = NaN))))"
    using track_upto [OF float_order_less inf, of ?f ?lo ?hi None]
  proof (elim disjE exE conjE)
    assume a: "track py_lt (map ?f [?lo..?hi]) (PosInf, None) = (PosInf, None)"
      and b: "\<forall>n v m. ?lo \<le> n \<and> n \<le> ?hi \<and> ?f n = Some (v, m) \<longrightarrow> \<not> py_lt v PosInf"
    have none: "\<not> py_lt v PosInf" if o: "ok n m v" for n m v
      using b f_ok [OF o] rng [OF o] by blast
    from a sel have "SelectorBIC_select ar lib s = None" by simp
    with none show ?thesis by blast
  next
    fix n v mo
    assume h: "?lo \<le> n" "n \<le> ?hi" "?f n = Some (v, mo)"
      "track py_lt (map ?f [?lo..?hi]) (PosInf, None) = (v, mo)" "py_lt v PosInf"
      "\<forall>n' v' m'. ?lo \<le> n' \<and> n' \<le> ?hi \<and> ?f n' = Some (v', m') \<longrightarrow>
          \<not> py_lt v' v \<and> (n' < n \<longrightarrow> py_lt v v' \<or> v' = NaN)"
    from ok_f [OF h(1,2,3)] obtain m where o: "ok n m v" and mo: "mo = Some m" by blast
    have s1: "SelectorBIC_select ar lib s = Some m" using sel h(4) mo by simp
    have best: "\<not> py_lt v' v \<and> (n' < n \<longrightarrow> py_lt v v' \<or> v' = NaN)"
      if o': "ok n' m' v'" for n' m' v'
      using h(6) f_ok [OF o'] rng [OF o'] by blast
    have "\<not> (\<forall>n m v. ok n m v \<longrightarrow> \<not> py_lt v PosInf)" using o h(5) by blast
    with o s1 best h(5) show ?thesis by blast
  qed
  from body main show ?thesis by blast
qed

lemma bic_loop_all_fail:
  "\<forall>n\<in>set ns. \<exists>e. bic_body ar lib s n = Inl e \<Longrightarrow> bic_loop ar lib s ns st = st"
  by (induction ns arbitrary: st) (auto split: prod.splits)

text \<open>
  Claim C1 as stated fails in three ways. When scoring returns negative infinity without
  raising, every candidate fits and scores, each BIC is positive infinity, which is not
  below the initial positive infinity, and \<open>select\<close> returns none. When the word has
  no frame, fit and scoring of a candidate may succeed, but \<open>math.log(0)\<close> raises and
  every candidate is skipped. When \<open>p\<close> is too large to convert to a float (here the
  only candidate is \<open>2 ^ 512\<close>, so \<open>p\<close> exceeds \<open>2 ^ 1024\<close>), the product
  \<open>p * logN\<close> raises and the candidate is skipped although it fitted and scored.
\<close>

theorem SelectorBIC_none_despite_successful_candidates:
  "GaussianHMM_fit neginf_lib 2 (random_state vocab2_selector) (X_obs vocab2_selector)
       (lengths vocab2_selector) = Inr model_A
   \<and> score_impl neginf_lib model_A (X_obs vocab2_selector) (lengths vocab2_selector) = Some NegInf
   \<and> bic_body ideal_arith neginf_lib vocab2_selector 2 = Inr (PosInf, Some model_A)
   \<and> SelectorBIC_select ideal_arith neginf_lib vocab2_selector = None
   \<and> GaussianHMM_fit frames_lib 2 (random_state empty_selector) (X_obs empty_selector)
       (lengths empty_selector) = Inr model_A
   \<and> score_impl frames_lib model_A (X_obs empty_selector) (lengths empty_selector) = Some (Fin 0)
   \<and> sum_list (lengths empty_selector) = 0
   \<and> bic_body ideal_arith frames_lib empty_selector 2 = Inl ValueError
   \<and> SelectorBIC_select ideal_arith frames_lib empty_selector = None
   \<and> GaussianHMM_fit frames_lib (2 ^ 512) (random_state huge_selector) (X_obs huge_selector)
       (lengths huge_selector) = Inr \<lparr>n_components = 2 ^ 512, n_features = 1, params = ()\<rparr>
   \<and> score_impl frames_lib \<lparr>n_components = 2 ^ 512, n_features = 1, params = ()\<rparr>
       (X_obs huge_selector) (lengths huge_selector) = Some (Fin (2 ^ 512))
   \<and> bic_body ideal_arith frames_lib huge_selector (2 ^ 512) = Inl OverflowError
   \<and> SelectorBIC_select ideal_arith frames_lib huge_selector = None"
proof -
  have b: "bic_body ideal_arith neginf_lib vocab2_selector n
      = Inr (PosInf, Some \<lparr>n_components = n, n_features = 1, params = ()\<rparr>)"
    if "n = 2 \<or> n = 3 \<or> n = 4" for n
    using that
    by (auto simp: bic_body_def base_model_def model_score_def math_log_def int_times_float_def
          vocab2_selector_fields neginf_lib_fit neginf_lib_score ideal_arith_ops)
  have s1: "SelectorBIC_select ideal_arith neginf_lib vocab2_selector = None"
    by (simp add: SelectorBIC_select_def vocab2_selector_fields b)
  have e: "bic_body ideal_arith frames_lib empty_selector n = Inl ValueError" for n
    by (simp add: bic_body_def base_model_def model_score_def math_log_def
          empty_selector_fields frames_lib_fit frames_lib_score)
  have s2: "SelectorBIC_select ideal_arith frames_lib empty_selector = None"
    unfolding SelectorBIC_select_def
    using bic_loop_all_fail [of _ ideal_arith frames_lib empty_selector "(PosInf, None)"] e
    by simp
  have sc: "score_impl frames_lib \<lparr>n_components = 2 ^ 512, n_features = 1, params = ()\<rparr>
       (X_obs huge_selector) (lengths huge_selector) = Some (Fin (2 ^ 512))"
    by (simp add: huge_selector_fields frames_lib_score del: power_numeral)
  have sc': "score_impl frames_lib \<lparr>n_components = 2 ^ 512, n_features = 1, params = ()\<rparr>
       [[0]] [1] = Some (Fin (2 ^ 512))"
    using sc by (simp only: huge_selector_fields)
  have h: "bic_body ideal_arith frames_lib huge_selector (2 ^ 512) = Inl OverflowError"
    unfolding bic_body_def base_model_def model_score_def math_log_def int_times_float_def
      Let_def huge_selector_fields frames_lib_fit
    by (simp only: sc' sum.case option.case hmm.select_convs huge_int_fails sum_list.Cons
          sum_list.Nil add_0_right one_neq_zero if_False)
  have s3: "SelectorBIC_select ideal_arith frames_lib huge_selector = None"
    unfolding SelectorBIC_select_def
    using bic_loop_all_fail [of "[2 ^ 512..2 ^ 512]" ideal_arith frames_lib huge_selector
        "(PosInf, None)"] h
    by (simp add: huge_selector_fields del: power_numeral)
  have p1: "GaussianHMM_fit neginf_lib 2 (random_state vocab2_selector) (X_obs vocab2_selector)
       (lengths vocab2_selector) = Inr model_A
   \<and> score_impl neginf_lib model_A (X_obs vocab2_selector) (lengths vocab2_selector) = Some NegInf
   \<and> bic_body ideal_arith neginf_lib vocab2_selector 2 = Inr (PosInf, Some model_A)
   \<and> SelectorBIC_select ideal_arith neginf_lib vocab2_selector = None
   \<and> GaussianHMM_fit frames_lib 2 (random_state empty_selector) (X_obs empty_selector)
       (lengths empty_selector) = Inr model_A
   \<and> score_impl frames_lib model_A (X_obs empty_selector) (lengths empty_selector) = Some (Fin 0)
   \<and> sum_list (lengths empty_selector) = 0
   \<and> bic_body ideal_arith frames_lib empty_selector 2 = Inl ValueError
   \<and> SelectorBIC_select ideal_arith frames_lib empty_selector = None"
    using s1 s2 b [of 2] e [of 2]
    by (simp add: vocab2_selector_fields empty_selector_fields neginf_lib_fit neginf_lib_score
          frames_lib_fit frames_lib_score model_A_def)
  from p1 frames_lib_fit [of "2 ^ 512"] sc h s3 show ?thesis by (simp only: simp_thms)
qed

text \<open>
  The theorem at a concrete word: three frames, candidates 2 to 4, the fit for 3 fails,
  candidates 2 and 4 score the same, so the smaller parameter count of 2 wins.
\<close>

theorem SelectorBIC_select_first_minimal_bic_witness:
  "bic_body ideal_arith demo_lib demo_selector 2
       = Inr (Fin (20 + 7 * ln 3), Some \<lparr>n_components = 2, n_features = 1, params = ()\<rparr>)
   \<and> bic_body ideal_arith demo_lib demo_selector 3 = Inl AttributeError
   \<and> bic_body ideal_arith demo_lib demo_selector 4
       = Inr (Fin (20 + 23 * ln 3), Some \<lparr>n_components = 4, n_features = 1, params = ()\<rparr>)
   \<and> py_lt (Fin (20 + 7 * ln 3)) PosInf
   \<and> SelectorBIC_select ideal_arith demo_lib demo_selector
       = Some \<lparr>n_components = 2, n_features = 1, params = ()\<rparr>"
proof -
  let ?m2 = "\<lparr>n_components = 2, n_features = 1, params = ()\<rparr>"
  let ?m4 = "\<lparr>n_components = 4, n_features = 1, params = ()\<rparr>"
  note t = SelectorBIC_select_first_minimal_bic [of demo_selector demo_lib ideal_arith]
  have ok2: "min_n_components demo_selector \<le> 2 \<and> 2 \<le> max_n_components demo_selector \<and>
      GaussianHMM_fit demo_lib 2 (random_state demo_selector) (X_obs demo_selector)
        (lengths demo_selector) = Inr ?m2 \<and>
      0 < sum_list (lengths demo_selector) \<and>
      (\<exists>logL p. score_impl demo_lib ?m2 (X_obs demo_selector) (lengths demo_selector) = Some logL \<and>
         f_of_int ideal_arith (2 ^ 2 + 2 * 2 * n_features ?m2 - 1) = Some p \<and>
         Fin (20 + 7 * ln 3) = f_add ideal_arith (f_mul ideal_arith (Fin (- 2)) logL)
              (f_mul ideal_arith p (f_log ideal_arith (sum_list (lengths demo_selector)))))"
    by (simp add: demo_selector_fields demo_lib_fit demo_lib_score ideal_arith_ops)
  have ok4: "min_n_components demo_selector \<le> 4 \<and> 4 \<le> max_n_components demo_selector \<and>
      GaussianHMM_fit demo_lib 4 (random_state demo_selector) (X_obs demo_selector)
        (lengths demo_selector) = Inr ?m4 \<and>
      0 < sum_list (lengths demo_selector) \<and>
      (\<exists>logL p. score_impl demo_lib ?m4 (X_obs demo_selector) (lengths demo_selector) = Some logL \<and>
         f_of_int ideal_arith (4 ^ 2 + 2 * 4 * n_features ?m4 - 1) = Some p \<and>
         Fin (20 + 23 * ln 3) = f_add ideal_arith (f_mul ideal_arith (Fin (- 2)) logL)
              (f_mul ideal_arith p (f_log ideal_arith (sum_list (lengths demo_selector)))))"
    by (simp add: demo_selector_fields demo_lib_fit demo_lib_score ideal_arith_ops)
  have b2: "bic_body ideal_arith demo_lib demo_selector 2 = Inr (Fin (20 + 7 * ln 3), Some ?m2)"
    using t [THEN conjunct1, rule_format, OF ok2] .
  have b4: "bic_body ideal_arith demo_lib demo_selector 4 = Inr (Fin (20 + 23 * ln 3), Some ?m4)"
    using t [THEN conjunct1, rule_format, OF ok4] .
  have b3: "bic_body ideal_arith demo_lib demo_selector 3 = Inl AttributeError"
    by (simp add: bic_body_def base_model_def model_score_def demo_selector_fields demo_lib_fit)
  have "SelectorBIC_select ideal_arith demo_lib demo_selector = Some ?m2"
    unfolding SelectorBIC_select_def by (simp add: demo_selector_fields b2 b3 b4)
  with b2 b3 b4 show ?thesis by simp
qed

section \<open>SelectorDIC\<close>

lemma collect_Inr_iff:
  "collect f xs = Inr ys \<longleftrightarrow> map f xs = map Inr ys"
proof (induction xs arbitrary: ys)
  case Nil
  show ?case by auto
next
  case (Cons x xs)
  show ?case
  proof (cases ys)
    case Nil
    then show ?thesis by (auto split: sum.splits)
  next
    case (Cons y ys')
    then show ?thesis using Cons.IH [of ys'] by (auto split: sum.splits)
  qed
qed

lemma dict_get_member:
  "distinct (map fst d) \<Longrightarrow> (k, v) \<in> set d \<Longrightarrow> dict_get d k = Inr v"
  by (simp add: dict_get_def)

lemma other_words_eq:
  assumes "distinct (map fst (hwords s))"
  shows "other_words s = Inr (map snd (filter (\<lambda>kv. fst kv \<noteq> this_word s) (hwords s)))"
proof -
  have "map (\<lambda>w. dict_get (hwords s) w) (filter (\<lambda>w. w \<noteq> this_word s) (map fst (hwords s)))
      = map Inr (map snd (filter (\<lambda>kv. fst kv \<noteq> this_word s) (hwords s)))"
    using dict_get_member [OF assms]
    by (auto simp: filter_map comp_def)
  then show ?thesis unfolding other_words_def collect_Inr_iff .
qed

lemma length_filter_neq:
  "distinct ks \<Longrightarrow> k \<in> set ks \<Longrightarrow> length (filter (\<lambda>x. x \<noteq> k) ks) = length ks - 1"
proof (induction ks)
  case Nil
  then show ?case by simp
next
  case (Cons a ks)
  show ?case
  proof (cases "a = k")
    case True
    then have "filter (\<lambda>x. x \<noteq> k) ks = ks" using Cons.prems by (auto simp: filter_id_conv)
    with True show ?thesis by simp
  next
    case False
    then have "k \<in> set ks" using Cons.prems by simp
    then have "0 < length ks" by (rule length_pos_if_in_set)
    with False Cons show ?thesis by simp
  qed
qed

lemma length_others:
  assumes d: "distinct (map fst (hwords s))" and m: "this_word s \<in> fst ` set (hwords s)"
  shows "length (filter (\<lambda>kv. fst kv \<noteq> this_word s) (hwords s)) = length (hwords s) - 1"
proof -
  have "length (filter (\<lambda>k. k \<noteq> this_word s) (map fst (hwords s)))
      = length (map fst (hwords s)) - 1"
    using d m by (intro length_filter_neq) auto
  then show ?thesis by (simp add: filter_map comp_def)
qed

lemma map_model_score_Some:
  "(map (\<lambda>(X', len). model_score lib (Some m) X' len) os = map Inr anti)
      = (map (\<lambda>(X', len). score_impl lib m X' len) os = map Some anti)"
proof (induction os arbitrary: anti)
  case Nil
  show ?case by simp
next
  case (Cons a os)
  show ?case
  proof (cases anti)
    case Nil
    then show ?thesis by simp
  next
    case (Cons l anti')
    then show ?thesis using Cons.IH [of anti']
      by (cases a) (auto simp: model_score_def split: option.splits)
  qed
qed

lemma collect_scores_iff:
  "collect (\<lambda>(X', len). model_score lib (Some m) X' len) os = Inr anti
     \<longleftrightarrow> map (\<lambda>(X', len). score_impl lib m X' len) os = map Some anti"
  by (simp add: collect_Inr_iff map_model_score_Some)

lemma dic_body_Inr_iff:
  assumes d: "distinct (map fst (hwords s))"
  shows "dic_body ar lib s n = Inr (v, mo) \<longleftrightarrow>
     (\<exists>m logL anti. GaussianHMM_fit lib n (random_state s) (X_obs s) (lengths s) = Inr m \<and>
        score_impl lib m (X_obs s) (lengths s) = Some logL \<and>
        map (\<lambda>(X', len). score_impl lib m X' len)
          (map snd (filter (\<lambda>kv. fst kv \<noteq> this_word s) (hwords s))) = map Some anti \<and>
        filter (\<lambda>kv. fst kv \<noteq> this_word s) (hwords s) \<noteq> [] \<and> mo = Some m \<and>
        v = f_sub ar logL (f_div_count ar (f_sum ar anti)
              (length (filter (\<lambda>kv. fst kv \<noteq> this_word s) (hwords s)))))"
proof -
  define os where "os = map snd (filter (\<lambda>kv. fst kv \<noteq> this_word s) (hwords s))"
  have ow: "other_words s = Inr os" unfolding os_def by (rule other_words_eq [OF d])
  have len: "length (filter (\<lambda>kv. fst kv \<noteq> this_word s) (hwords s)) = length os"
    by (simp add: os_def)
  have ne: "(filter (\<lambda>kv. fst kv \<noteq> this_word s) (hwords s) \<noteq> []) = (os \<noteq> [])"
    by (simp add: os_def)
  have "dic_body ar lib s n = Inr (v, mo) \<longleftrightarrow>
     (\<exists>m logL anti. GaussianHMM_fit lib n (random_state s) (X_obs s) (lengths s) = Inr m \<and>
        score_impl lib m (X_obs s) (lengths s) = Some logL \<and>
        map (\<lambda>(X', len). score_impl lib m X' len) os = map Some anti \<and>
        os \<noteq> [] \<and> mo = Some m \<and>
        v = f_sub ar logL (f_div_count ar (f_sum ar anti) (length os)))"
    unfolding dic_body_def base_model_def Let_def ow collect_scores_iff [symmetric]
    by (auto simp: sum_over_count_def model_score_def split: sum.splits option.splits)
  then show ?thesis unfolding len ne unfolding os_def .
qed

lemma dic_body_other_fails:
  assumes d: "distinct (map fst (hwords s))"
    and fit: "GaussianHMM_fit lib n (random_state s) (X_obs s) (lengths s) = Inr m"
    and own: "score_impl lib m (X_obs s) (lengths s) = Some logL"
    and oth: "(w, X', len) \<in> set (hwords s)" "w \<noteq> this_word s"
      "score_impl lib m X' len = None"
  shows "\<exists>e. dic_body ar lib s n = Inl e"
proof (cases "dic_body ar lib s n")
  case (Inl e)
  then show ?thesis by blast
next
  case (Inr r)
  obtain v mo where r: "r = (v, mo)" by (cases r)
  from Inr r dic_body_Inr_iff [OF d, of ar lib n v mo] obtain m' anti where
    h: "GaussianHMM_fit lib n (random_state s) (X_obs s) (lengths s) = Inr m'"
       "map (\<lambda>(X', len). score_impl lib m' X' len)
          (map snd (filter (\<lambda>kv. fst kv \<noteq> this_word s) (hwords s))) = map Some anti"
    by auto
  from h(1) fit have mm: "m' = m" by simp
  have "(X', len) \<in> set (map snd (filter (\<lambda>kv. fst kv \<noteq> this_word s) (hwords s)))"
    using oth(1,2) by force
  then have "score_impl lib m X' len \<in> set (map (\<lambda>(X', len). score_impl lib m X' len)
          (map snd (filter (\<lambda>kv. fst kv \<noteq> this_word s) (hwords s))))"
    by force
  with h(2) mm oth(3) have "None \<in> set (map Some anti)" by simp
  then show ?thesis by auto
qed

text \<open>
  Claim C4, amended. For a word of a vocabulary (a dictionary, so with distinct keys,
  holding the word itself) of \<open>M \<ge> 2\<close> words there is one other-word entry per other
  word, \<open>M - 1\<close> in all. Call a candidate \<open>n\<close> of the range evaluated when its own
  fit and scoring succeed and it scores every other word; for it the loop body computes
  \<open>DIC = logL - sum(other log-likelihoods) / (M - 1)\<close> in float arithmetic. If
  scoring any single other word fails, the body raises and the whole candidate is
  skipped. \<open>SelectorDIC.select\<close> returns none when no evaluated candidate has a DIC
  above negative infinity. Otherwise it returns the model of an evaluated candidate whose
  DIC is above negative infinity, is not below the DIC of any evaluated candidate, and is
  strictly above the DIC of every evaluated candidate with a lower \<open>n\<close> unless that DIC
  is not-a-number: the first maximiser.
\<close>

theorem SelectorDIC_select_first_maximal_dic:
  fixes ar :: float_arith and lib :: "'p hmmlearn" and s :: selector
  defines "others \<equiv> map snd (filter (\<lambda>kv. fst kv \<noteq> this_word s) (hwords s))"
  defines "own \<equiv> \<lambda>n m logL.
     min_n_components s \<le> n \<and> n \<le> max_n_components s \<and>
     GaussianHMM_fit lib n (random_state s) (X_obs s) (lengths s) = Inr m \<and>
     score_impl lib m (X_obs s) (lengths s) = Some logL"
  defines "ok \<equiv> \<lambda>n m dic. \<exists>logL anti. own n m logL \<and>
     map (\<lambda>(X', len). score_impl lib m X' len) others = map Some anti \<and>
     dic = f_sub ar logL (f_div_count ar (f_sum ar anti) (length (hwords s) - 1))"
  assumes d: "distinct (map fst (hwords s))"
    and mem: "this_word s \<in> fst ` set (hwords s)"
    and two: "2 \<le> length (hwords s)"
  shows "length others = length (hwords s) - 1
       \<and> (\<forall>n m dic. ok n m dic \<longrightarrow> dic_body ar lib s n = Inr (dic, Some m))
       \<and> (\<forall>n m logL w X' len. own n m logL \<and> (w, X', len) \<in> set (hwords s) \<and>
             w \<noteq> this_word s \<and> score_impl lib m X' len = None
             \<longrightarrow> (\<exists>e. dic_body ar lib s n = Inl e))
       \<and> ((\<forall>n m dic. ok n m dic \<longrightarrow> \<not> py_lt NegInf dic)
            \<longrightarrow> SelectorDIC_select ar lib s = None)
       \<and> ((\<exists>n m dic. ok n m dic \<and> py_lt NegInf dic) \<longrightarrow>
            (\<exists>n m dic. ok n m dic \<and> py_lt NegInf dic \<and>
               SelectorDIC_select ar lib s = Some m \<and>
               (\<forall>n' m' dic'. ok n' m' dic' \<longrightarrow>
                  \<not> py_lt dic dic' \<and> (n' < n \<longrightarrow> py_lt dic' dic \<or> dic' = NaN))))"
proof -
  let ?f = "\<lambda>n. case dic_body ar lib s n of Inl e \<Rightarrow> None | Inr r \<Rightarrow> Some r"
  let ?lo = "min_n_components s" and ?hi = "max_n_components s"
  let ?flt = "filter (\<lambda>kv. fst kv \<noteq> this_word s) (hwords s)"
  have len: "length ?flt = length (hwords s) - 1" by (rule length_others [OF d mem])
  then have len': "length others = length (hwords s) - 1" by (simp add: others_def)
  have ne: "?flt \<noteq> []" using len two by auto
  have sel: "SelectorDIC_select ar lib s
      = snd (track (\<lambda>a b. py_lt b a) (map ?f [?lo..?hi]) (NegInf, None))"
    by (simp add: SelectorDIC_select_def dic_loop_track)
  have body_iff: "dic_body ar lib s n = Inr (v, mo) \<longleftrightarrow>
     (\<exists>m logL anti. GaussianHMM_fit lib n (random_state s) (X_obs s) (lengths s) = Inr m \<and>
        score_impl lib m (X_obs s) (lengths s) = Some logL \<and>
        map (\<lambda>(X', len). score_impl lib m X' len) others = map Some anti \<and> mo = Some m \<and>
        v = f_sub ar logL (f_div_count ar (f_sum ar anti) (length (hwords s) - 1)))" for n v mo
    unfolding dic_body_Inr_iff [OF d] others_def len using ne by simp
  have body: "dic_body ar lib s n = Inr (dic, Some m)" if "ok n m dic" for n m dic
    using that unfolding ok_def own_def body_iff by blast
  have f_ok: "?f n = Some (dic, Some m)" if "ok n m dic" for n m dic
    using body [OF that] by simp
  have rng: "?lo \<le> n \<and> n \<le> ?hi" if "ok n m dic" for n m dic
    using that unfolding ok_def own_def by blast
  have ok_f: "\<exists>m. ok n m v \<and> mo = Some m"
    if "?lo \<le> n" "n \<le> ?hi" "?f n = Some (v, mo)" for n v mo
  proof -
    from that(3) have "dic_body ar lib s n = Inr (v, mo)" by (simp split: sum.splits)
    then show ?thesis using that(1,2) unfolding ok_def own_def body_iff by blast
  qed
  have fails: "\<exists>e. dic_body ar lib s n = Inl e"
    if "own n m logL \<and> (w, X', len) \<in> set (hwords s) \<and> w \<noteq> this_word s \<and>
        score_impl lib m X' len = None" for n m logL w X' len
    using that dic_body_other_fails [OF d, of lib n m logL w X' len ar] unfolding own_def by blast
  have ninf: "NegInf \<noteq> NaN" by simp
  have main: "((\<forall>n m dic. ok n m dic \<longrightarrow> \<not> py_lt NegInf dic)
            \<longrightarrow> SelectorDIC_select ar lib s = None)
       \<and> ((\<exists>n m dic. ok n m dic \<and> py_lt NegInf dic) \<longrightarrow>
            (\<exists>n m dic. ok n m dic \<and> py_lt NegInf dic \<and>
               SelectorDIC_select ar lib s = Some m \<and>
               (\<forall>n' m' dic'. ok n' m' dic' \<longrightarrow>
                  \<not> py_lt dic dic' \<and> (n' < n \<longrightarrow> py_lt dic' dic \<or> dic' = NaN))))"
    using track_upto [OF float_order_greater ninf, of ?f ?lo ?hi None]
  proof (elim disjE exE conjE)
    assume a: "track (\<lambda>a b. py_lt b a) (map ?f [?lo..?hi]) (NegInf, None) = (NegInf, None)"
      and b: "\<forall>n v m. ?lo \<le> n \<and> n \<le> ?hi \<and> ?f n = Some (v, m) \<longrightarrow> \<not> py_lt NegInf v"
    have none: "\<not> py_lt NegInf dic" if o: "ok n m dic" for n m dic
      using b f_ok [OF o] rng [OF o] by blast
    from a sel have "SelectorDIC_select ar lib s = None" by simp
    with none show ?thesis by blast
  next
    fix n v mo
    assume h: "?lo \<le> n" "n \<le> ?hi" "?f n = Some (v, mo)"
      "track (\<lambda>a b. py_lt b a) (map ?f [?lo..?hi]) (NegInf, None) = (v, mo)" "py_lt NegInf v"
      "\<forall>n' v' m'. ?lo \<le> n' \<and> n' \<le> ?hi \<and> ?f n' = Some (v', m') \<longrightarrow>
          \<not> py_lt v v' \<and> (n' < n \<longrightarrow> py_lt v' v \<or> v' = NaN)"
    from ok_f [OF h(1,2,3)] obtain m where o: "ok n m v" and mo: "mo = Some m" by blast
    have s1: "SelectorDIC_select ar lib s = Some m" using sel h(4) mo by simp
    have best: "\<not> py_lt v dic' \<and> (n' < n \<longrightarrow> py_lt dic' v \<or> dic' = NaN)"
      if o': "ok n' m' dic'" for n' m' dic'
      using h(6) f_ok [OF o'] rng [OF o'] by blast
    have "\<not> (\<forall>n m dic. ok n m dic \<longrightarrow> \<not> py_lt NegInf dic)" using o h(5) by blast
    with o s1 best h(5) show ?thesis by blast
  qed
  from len' body fails main show ?thesis by blast
qed


lemma dic_loop_all_fail:
  "\<forall>n\<in>set ns. \<exists>e. dic_body ar lib s n = Inl e \<Longrightarrow> dic_loop ar lib s ns st = st"
  by (induction ns arbitrary: st) (auto split: prod.splits)


lemma vocab3_selector_fields:
  "min_n_components vocab3_selector = 2" "max_n_components vocab3_selector = 4"
  "random_state vocab3_selector = 14" "lengths vocab3_selector = [2, 1]"
  "X_obs vocab3_selector = [[0], [1], [2]]" "this_word vocab3_selector = ''A''"
  "hwords vocab3_selector
     = [(''A'', ([[0], [1], [2]], [2, 1])), (''B'', ([[5]], [1])), (''C'', ([[7], [8]], [2]))]"
  by (simp_all add: vocab3_selector_def)

text \<open>
  Claim C4 as stated fails when the word's own scoring returns negative infinity
  without raising: the candidates fit and score, the other word scores \<open>-1\<close>, each DIC
  is negative infinity, which is not above the initial negative infinity, and
  \<open>select\<close> returns none instead of the model with the maximum DIC.
\<close>

theorem SelectorDIC_none_despite_evaluated_candidates:
  "distinct (map fst (hwords vocab2_selector))
   \<and> this_word vocab2_selector \<in> fst ` set (hwords vocab2_selector)
   \<and> 2 \<le> length (hwords vocab2_selector)
   \<and> GaussianHMM_fit neginf_lib 2 (random_state vocab2_selector) (X_obs vocab2_selector)
        (lengths vocab2_selector) = Inr model_A
   \<and> score_impl neginf_lib model_A (X_obs vocab2_selector) (lengths vocab2_selector)
        = Some NegInf
   \<and> score_impl neginf_lib model_A [[2]] [1] = Some (Fin (- 1))
   \<and> dic_body ideal_arith neginf_lib vocab2_selector 2 = Inr (NegInf, Some model_A)
   \<and> SelectorDIC_select ideal_arith neginf_lib vocab2_selector = None"
proof -
  have b: "dic_body ideal_arith neginf_lib vocab2_selector n
      = Inr (NegInf, Some \<lparr>n_components = n, n_features = 1, params = ()\<rparr>)" for n
    by (simp add: dic_body_def base_model_def model_score_def other_words_def dict_get_def
          sum_over_count_def vocab2_selector_fields neginf_lib_fit neginf_lib_score
          ideal_arith_ops)
  have "SelectorDIC_select ideal_arith neginf_lib vocab2_selector = None"
    by (simp add: SelectorDIC_select_def vocab2_selector_fields b)
  with b [of 2] show ?thesis
    by (simp add: vocab2_selector_fields neginf_lib_fit neginf_lib_score model_A_def)
qed

text \<open>
  The theorem at a vocabulary of three words: candidate 3 fails on the other word B and
  is skipped, candidates 2 and 4 have DIC 3 and 6, and the model with 4 states wins.
\<close>

theorem SelectorDIC_select_first_maximal_dic_witness:
  "distinct (map fst (hwords vocab3_selector))
   \<and> this_word vocab3_selector \<in> fst ` set (hwords vocab3_selector)
   \<and> 2 \<le> length (hwords vocab3_selector)
   \<and> dic_body ideal_arith frames_lib vocab3_selector 2
        = Inr (Fin 3, Some \<lparr>n_components = 2, n_features = 1, params = ()\<rparr>)
   \<and> (\<exists>e. dic_body ideal_arith frames_lib vocab3_selector 3 = Inl e)
   \<and> dic_body ideal_arith frames_lib vocab3_selector 4
        = Inr (Fin 6, Some \<lparr>n_components = 4, n_features = 1, params = ()\<rparr>)
   \<and> SelectorDIC_select ideal_arith frames_lib vocab3_selector
        = Some \<lparr>n_components = 4, n_features = 1, params = ()\<rparr>"
proof -
  let ?s = vocab3_selector and ?lib = frames_lib
  let ?m = "\<lambda>n. \<lparr>n_components = n, n_features = 1, params = ()\<rparr>"
  note sel = vocab3_selector_fields
  note fit = frames_lib_fit and sc = frames_lib_score
  have h1: "distinct (map fst (hwords ?s))" by (simp add: sel)
  have h2: "this_word ?s \<in> fst ` set (hwords ?s)" by (simp add: sel)
  have h3: "2 \<le> length (hwords ?s)" by (simp add: sel)
  note t = SelectorDIC_select_first_maximal_dic
    [OF h1 h2 h3, where ar = ideal_arith and lib = ?lib]
  have b2: "dic_body ideal_arith ?lib ?s 2 = Inr (Fin 3, Some (?m 2))"
    by (rule t [THEN conjunct2, THEN conjunct1, rule_format],
        rule exI [of _ "Fin 6"], rule exI [of _ "[Fin 2, Fin 4]"])
       (simp add: sel fit sc ideal_arith_ops)
  have b4: "dic_body ideal_arith ?lib ?s 4 = Inr (Fin 6, Some (?m 4))"
    by (rule t [THEN conjunct2, THEN conjunct1, rule_format],
        rule exI [of _ "Fin 12"], rule exI [of _ "[Fin 4, Fin 8]"])
       (simp add: sel fit sc ideal_arith_ops)
  have b3: "\<exists>e. dic_body ideal_arith ?lib ?s 3 = Inl e"
    by (rule t [THEN conjunct2, THEN conjunct2, THEN conjunct1, rule_format,
                of 3 "?m 3" "Fin 9" "''B''" "[[5]]" "[1]"]) (simp add: sel fit sc)
  then obtain e where b3': "dic_body ideal_arith ?lib ?s 3 = Inl e" by blast
  have "SelectorDIC_select ideal_arith ?lib ?s = Some (?m 4)"
    unfolding SelectorDIC_select_def by (simp add: sel b2 b3' b4)
  with h1 h2 h3 b2 b3 b4 show ?thesis by simp
qed


text \<open>
  Claim C10. When the vocabulary holds only the word itself, \<open>SelectorDIC.select\<close>
  returns none and raises nothing: the body of every candidate raises inside the
  handler, and for a candidate whose own fit and scoring succeed the exception is the
  \<open>ZeroDivisionError\<close> of dividing by the zero count of other words.
\<close>

theorem SelectorDIC_select_single_word_none:
  assumes only: "map fst (hwords s) = [this_word s]"
  shows "select DIC split_method ar lib s = Inr None
       \<and> (\<forall>n. \<exists>e. dic_body ar lib s n = Inl e)
       \<and> (\<forall>n m logL.
            GaussianHMM_fit lib n (random_state s) (X_obs s) (lengths s) = Inr m \<and>
            score_impl lib m (X_obs s) (lengths s) = Some logL
            \<longrightarrow> dic_body ar lib s n = Inl ZeroDivisionError)"
proof -
  have ow: "other_words s = Inr []" by (simp add: other_words_def only)
  have zero: "dic_body ar lib s n = Inl ZeroDivisionError"
    if "GaussianHMM_fit lib n (random_state s) (X_obs s) (lengths s) = Inr m \<and>
        score_impl lib m (X_obs s) (lengths s) = Some logL" for n m logL
    using that by (simp add: dic_body_def base_model_def model_score_def ow sum_over_count_def)
  have all: "\<exists>e. dic_body ar lib s n = Inl e" for n
    by (auto simp: dic_body_def base_model_def model_score_def ow sum_over_count_def Let_def
             split: sum.splits option.splits)
  have "SelectorDIC_select ar lib s = None"
    unfolding SelectorDIC_select_def
    using dic_loop_all_fail [of _ ar lib s "(NegInf, None)"] all
    by simp
  then have "select DIC split_method ar lib s = Inr None" by simp
  with zero all show ?thesis by blast
qed

text \<open>
  The theorem at the one-word vocabulary: candidate 2 reaches the division, candidate 3
  fails earlier (its fit fails, so scoring \<open>None\<close> raises).
\<close>

theorem SelectorDIC_select_single_word_none_witness:
  "map fst (hwords demo_selector) = [this_word demo_selector]
   \<and> select DIC KFold ideal_arith demo_lib demo_selector = Inr None
   \<and> dic_body ideal_arith demo_lib demo_selector 2 = Inl ZeroDivisionError
   \<and> dic_body ideal_arith demo_lib demo_selector 3 = Inl AttributeError"
proof -
  have h: "map fst (hwords demo_selector) = [this_word demo_selector]"
    by (simp add: demo_selector_fields)
  note t = SelectorDIC_select_single_word_none
    [OF h, where split_method = KFold and ar = ideal_arith and lib = demo_lib]
  have "dic_body ideal_arith demo_lib demo_selector 2 = Inl ZeroDivisionError"
    by (rule t [THEN conjunct2, THEN conjunct2, rule_format,
                of 2 "\<lparr>n_components = 2, n_features = 1, params = ()\<rparr>" "Fin (- 10)"])
       (simp add: demo_lib_fit demo_lib_score)
  moreover have "dic_body ideal_arith demo_lib demo_selector 3 = Inl AttributeError"
    by (simp add: dic_body_def base_model_def model_score_def demo_lib_fit
          demo_selector_fields)
  ultimately show ?thesis using h t by simp
qed

section \<open>The recognizer\<close>

lemma recognize_words_fresh:
  "\<not> py_lt best l \<Longrightarrow>
   \<exists>l'. recognize_words lib X' lens ms (Some l, prob, best, guess)
          = Inr (Some l', recognize_words_spec lib X' lens ms (prob, best, guess))
        \<and> \<not> py_lt (fst (snd (recognize_words_spec lib X' lens ms (prob, best, guess)))) l'"
proof (induction ms arbitrary: l prob best guess)
  case Nil
  then show ?case by simp
next
  case (Cons wm ms)
  obtain w m where wm: "wm = (w, m)" by (cases wm)
  show ?case
  proof (cases "model_score lib m X' lens")
    case (Inl e)
    from Cons.IH [OF Cons.prems, of "dict_set prob w NegInf" guess]
    show ?thesis using Inl wm Cons.prems by (simp add: recorded_def Let_def)
  next
    case (Inr l1)
    show ?thesis
    proof (cases "py_lt best l1")
      case True
      have "\<not> py_lt l1 l1" by simp
      from Cons.IH [OF this, of "dict_set prob w l1" "Some w"]
      show ?thesis using Inr wm True by (simp add: recorded_def Let_def)
    next
      case False
      from Cons.IH [OF False, of "dict_set prob w l1" guess]
      show ?thesis using Inr wm False by (simp add: recorded_def Let_def)
    qed
  qed
qed

lemma recognize_words_first_ok:
  assumes "model_score lib m X' lens = Inr l0"
  shows "\<exists>l'. recognize_words lib X' lens ((w, m) # ms) (logL0, [], NegInf, None)
          = Inr (Some l', recognize_words_spec lib X' lens ((w, m) # ms) ([], NegInf, None))"
proof (cases "py_lt NegInf l0")
  case True
  have "\<not> py_lt l0 l0" by simp
  from recognize_words_fresh [OF this, of lib X' lens ms "[(w, l0)]" "Some w"]
  show ?thesis using assms True by (auto simp: recorded_def Let_def)
next
  case False
  from recognize_words_fresh [OF False, of lib X' lens ms "[(w, l0)]" None]
  show ?thesis using assms False by (auto simp: recorded_def Let_def)
qed

lemma dict_set_fresh: "k \<notin> fst ` set d \<Longrightarrow> dict_set d k v = d @ [(k, v)]"
  by (induction d) auto

lemma recognize_words_spec_row:
  "distinct (map fst prob @ map fst ms) \<Longrightarrow>
   fst (recognize_words_spec lib X' lens ms (prob, best, guess))
     = prob @ map (\<lambda>(w, m). (w, recorded lib X' lens m)) ms"
proof (induction ms arbitrary: prob best guess)
  case Nil
  then show ?case by simp
next
  case (Cons wm ms)
  obtain w m where wm: "wm = (w, m)" by (cases wm)
  have fresh: "w \<notin> fst ` set prob" using Cons.prems wm by auto
  have d: "distinct (map fst (prob @ [(w, v)]) @ map fst ms)" for v
    using Cons.prems wm by auto
  show ?case
    using Cons.IH [OF d] wm by (simp add: Let_def dict_set_fresh [OF fresh])
qed

lemma recognize_words_spec_track:
  "snd (recognize_words_spec lib X' lens ms (prob, best, guess))
     = track (\<lambda>a b. py_lt b a)
         (map (\<lambda>wm. Some (recorded lib X' lens (snd wm), Some (fst wm))) ms) (best, guess)"
proof (induction ms arbitrary: prob best guess)
  case Nil
  show ?case by simp
next
  case (Cons wm ms)
  obtain w m where wm: "wm = (w, m)" by (cases wm)
  show ?case using Cons.IH wm by (simp add: Let_def)
qed

lemma recognize_words_spec_best:
  assumes "best \<noteq> NaN"
  shows "(snd (recognize_words_spec lib X' lens ms (prob, best, guess)) = (best, guess) \<and>
      (\<forall>wm\<in>set ms. \<not> py_lt best (recorded lib X' lens (snd wm))))
   \<or> (\<exists>pre w m post. ms = pre @ (w, m) # post \<and>
        snd (recognize_words_spec lib X' lens ms (prob, best, guess))
          = (recorded lib X' lens m, Some w) \<and>
        py_lt best (recorded lib X' lens m) \<and>
        (\<forall>wm\<in>set pre. py_lt (recorded lib X' lens (snd wm)) (recorded lib X' lens m)
                       \<or> recorded lib X' lens (snd wm) = NaN) \<and>
        (\<forall>wm\<in>set post. \<not> py_lt (recorded lib X' lens m) (recorded lib X' lens (snd wm))))"
proof -
  let ?r = "recorded lib X' lens"
  let ?g = "\<lambda>wm. Some (?r (snd wm), Some (fst wm))"
  note tr = recognize_words_spec_track [of lib X' lens ms prob best guess]
  from track_split [OF float_order_greater assms, of "map ?g ms" guess] show ?thesis
  proof (elim disjE exE conjE)
    assume a: "track (\<lambda>a b. py_lt b a) (map ?g ms) (best, guess) = (best, guess)"
      and b: "\<forall>v m. Some (v, m) \<in> set (map ?g ms) \<longrightarrow> \<not> py_lt best v"
    have "\<forall>wm\<in>set ms. \<not> py_lt best (?r (snd wm))"
    proof
      fix wm assume "wm \<in> set ms"
      then have "?g wm \<in> set (map ?g ms)" by simp
      with b show "\<not> py_lt best (?r (snd wm))" by blast
    qed
    with a tr show ?thesis by simp
  next
    fix pre v mo post
    assume h: "map ?g ms = pre @ Some (v, mo) # post"
      "track (\<lambda>a b. py_lt b a) (map ?g ms) (best, guess) = (v, mo)" "py_lt best v"
      "\<forall>v' m'. Some (v', m') \<in> set pre \<longrightarrow> py_lt v' v \<or> v' = NaN"
      "\<forall>v' m'. Some (v', m') \<in> set post \<longrightarrow> \<not> py_lt v v'"
    from h(1) obtain p wm q where ms: "ms = p @ wm # q"
      and pre: "pre = map ?g p" and g: "?g wm = Some (v, mo)" and post: "post = map ?g q"
      by (auto simp: map_eq_append_conv map_eq_Cons_conv)
    obtain w m where wm: "wm = (w, m)" by (cases wm)
    from g wm have v: "v = ?r m" and mo: "mo = Some w" by simp_all
    have a: "\<forall>x\<in>set p. py_lt (?r (snd x)) (?r m) \<or> ?r (snd x) = NaN"
    proof
      fix x assume "x \<in> set p"
      then have "?g x \<in> set pre" using pre by simp
      with h(4) v show "py_lt (?r (snd x)) (?r m) \<or> ?r (snd x) = NaN" by blast
    qed
    have b: "\<forall>x\<in>set q. \<not> py_lt (?r m) (?r (snd x))"
    proof
      fix x assume "x \<in> set q"
      then have "?g x \<in> set post" using post by simp
      with h(5) v show "\<not> py_lt (?r m) (?r (snd x))" by blast
    qed
    from ms wm tr h(2,3) v mo a b show ?thesis by (intro disjI2) auto
  qed
qed

lemma recognize_loop_outputs:
  "recognize_loop lib models ts (logL0, ps, gs) = Inr (logL', ps', gs') \<Longrightarrow>
   \<exists>rows gsn. ps' = ps @ rows \<and> gs' = gs @ gsn \<and> length rows = length ts \<and>
      length gsn = length ts \<and>
      (\<forall>j<length ts. \<exists>lg lg' sel.
          recognize_words lib (fst (ts ! j)) (snd (ts ! j)) models (lg, [], NegInf, None)
            = Inr (lg', rows ! j, sel, gsn ! j))"
proof (induction ts arbitrary: logL0 ps gs)
  case Nil
  then show ?case by simp
next
  case (Cons t ts)
  obtain X' lens where t: "t = (X', lens)" by (cases t)
  from Cons.prems t obtain lg1 row sel g where
    w: "recognize_words lib X' lens models (logL0, [], NegInf, None) = Inr (lg1, row, sel, g)"
    and rest: "recognize_loop lib models ts (lg1, ps @ [row], gs @ [g]) = Inr (logL', ps', gs')"
    by (auto split: sum.splits)
  from Cons.IH [OF rest] obtain rows gsn where
    h: "ps' = (ps @ [row]) @ rows" "gs' = (gs @ [g]) @ gsn" "length rows = length ts"
      "length gsn = length ts"
      "\<forall>j<length ts. \<exists>lg lg' sel.
          recognize_words lib (fst (ts ! j)) (snd (ts ! j)) models (lg, [], NegInf, None)
            = Inr (lg', rows ! j, sel, gsn ! j)"
    by blast
  have "\<forall>j<length (t # ts). \<exists>lg lg' sel.
          recognize_words lib (fst ((t # ts) ! j)) (snd ((t # ts) ! j)) models
             (lg, [], NegInf, None)
            = Inr (lg', (row # rows) ! j, sel, (g # gsn) ! j)"
  proof (intro allI impI)
    fix j assume j: "j < length (t # ts)"
    show "\<exists>lg lg' sel.
          recognize_words lib (fst ((t # ts) ! j)) (snd ((t # ts) ! j)) models
             (lg, [], NegInf, None)
            = Inr (lg', (row # rows) ! j, sel, (g # gsn) ! j)"
    proof (cases j)
      case 0
      then show ?thesis using w t by auto
    next
      case (Suc k)
      then have "k < length ts" using j by simp
      with h(5) Suc show ?thesis by simp
    qed
  qed
  moreover have "ps' = ps @ (row # rows)" "gs' = gs @ (g # gsn)" using h(1,2) by simp_all
  moreover have "length (row # rows) = length (t # ts)" "length (g # gsn) = length (t # ts)"
    using h(3,4) by simp_all
  ultimately show ?case by blast
qed

text \<open>
  Claim C9, amended. Let \<open>recognize\<close> return, for a mapping with distinct keys, and
  take a test sequence on which the first (word, model) pair scores successfully. Then
  the row of that sequence records every word's value in iteration order, and row and
  guess are the ones of the scan that compares the value just recorded: a stale
  log-likelihood compared after a failure never exceeds the running best, so a failure
  never changes the guess. The guess is none when no recorded value is above negative
  infinity; otherwise it is the first key whose recorded value is above negative
  infinity, is not below any recorded value of the row and is strictly above every
  earlier recorded value that is a number.
\<close>

theorem recognize_guess_first_max_when_first_scores:
  fixes lib :: "'p hmmlearn"
  assumes d: "distinct (map fst models)"
    and r: "recognize lib models test_set = Inr (probabilities, guesses)"
    and j: "j < length test_set"
    and t: "test_set ! j = (X', lens)"
    and m: "models = (w0, m0) # rest"
    and ok: "model_score lib m0 X' lens = Inr l0"
  shows "probabilities ! j = map (\<lambda>(w, m). (w, recorded lib X' lens m)) models
       \<and> (probabilities ! j, guesses ! j)
           = (fst (recognize_words_spec lib X' lens models ([], NegInf, None)),
              snd (snd (recognize_words_spec lib X' lens models ([], NegInf, None))))
       \<and> ((guesses ! j = None \<and>
             (\<forall>k. k < length (probabilities ! j)
                  \<longrightarrow> \<not> py_lt NegInf (snd (probabilities ! j ! k))))
          \<or> (\<exists>i w v. i < length (probabilities ! j) \<and> probabilities ! j ! i = (w, v) \<and>
                guesses ! j = Some w \<and> py_lt NegInf v \<and>
                (\<forall>k. k < length (probabilities ! j)
                     \<longrightarrow> \<not> py_lt v (snd (probabilities ! j ! k))) \<and>
                (\<forall>k. k < i \<longrightarrow> py_lt (snd (probabilities ! j ! k)) v
                                 \<or> snd (probabilities ! j ! k) = NaN)))"
proof -
  let ?spec = "recognize_words_spec lib X' lens models ([], NegInf, None)"
  let ?r = "recorded lib X' lens"
  let ?row = "map (\<lambda>(w, m). (w, ?r m)) models"
  from r obtain lg where
    "recognize_loop lib models test_set (None, [], []) = Inr (lg, probabilities, guesses)"
    by (auto simp: recognize_def split: sum.splits)
  from recognize_loop_outputs [OF this] j t obtain lg0 lg1 sel where
    w: "recognize_words lib X' lens models (lg0, [], NegInf, None)
          = Inr (lg1, probabilities ! j, sel, guesses ! j)"
    by fastforce
  from recognize_words_first_ok [OF ok, of w0 rest lg0] m obtain l' where
    "recognize_words lib X' lens models (lg0, [], NegInf, None) = Inr (Some l', ?spec)"
    by blast
  with w have sp: "?spec = (probabilities ! j, sel, guesses ! j)" by simp
  have row: "fst ?spec = ?row"
    using recognize_words_spec_row [of "[]" models lib X' lens NegInf None] d by simp
  with sp have pj: "probabilities ! j = ?row" by simp
  have snd_row: "snd (?row ! k) = ?r (snd (models ! k))" if "k < length models" for k
    using that by (simp add: case_prod_unfold)
  have ninf: "NegInf \<noteq> NaN" by simp
  from recognize_words_spec_best [OF ninf, of lib X' lens models "[]" None]
  have "(guesses ! j = None \<and> (\<forall>k. k < length ?row \<longrightarrow> \<not> py_lt NegInf (snd (?row ! k))))
      \<or> (\<exists>i w v. i < length ?row \<and> ?row ! i = (w, v) \<and> guesses ! j = Some w \<and>
             py_lt NegInf v \<and>
             (\<forall>k. k < length ?row \<longrightarrow> \<not> py_lt v (snd (?row ! k))) \<and>
             (\<forall>k. k < i \<longrightarrow> py_lt (snd (?row ! k)) v \<or> snd (?row ! k) = NaN))"
  proof (elim disjE exE conjE)
    assume a: "snd ?spec = (NegInf, None)"
      and b: "\<forall>wm\<in>set models. \<not> py_lt NegInf (?r (snd wm))"
    have "guesses ! j = None" using a sp by simp
    moreover have "\<not> py_lt NegInf (snd (?row ! k))" if "k < length ?row" for k
    proof -
      have "models ! k \<in> set models" using that by simp
      with b snd_row [of k] that show ?thesis by simp
    qed
    ultimately show ?thesis by blast
  next
    fix pre w mm post
    assume h: "models = pre @ (w, mm) # post" "snd ?spec = (?r mm, Some w)"
      "py_lt NegInf (?r mm)"
      "\<forall>wm\<in>set pre. py_lt (?r (snd wm)) (?r mm) \<or> ?r (snd wm) = NaN"
      "\<forall>wm\<in>set post. \<not> py_lt (?r mm) (?r (snd wm))"
    have g: "guesses ! j = Some w" using h(2) sp by simp
    have i: "length pre < length ?row" using h(1) by simp
    have at: "?row ! length pre = (w, ?r mm)" using h(1) by (simp add: nth_append)
    have pre_no: "\<not> py_lt (?r mm) (?r (snd wm))" if "wm \<in> set pre" for wm
    proof -
      from h(4) that have "py_lt (?r (snd wm)) (?r mm) \<or> ?r (snd wm) = NaN" by blast
      then show ?thesis
        using py_lt_trans [of "?r mm" "?r (snd wm)" "?r mm"] by auto
    qed
    have le: "\<not> py_lt (?r mm) (snd (?row ! k))" if "k < length ?row" for k
    proof -
      have "models ! k \<in> set models" using that by simp
      then consider "models ! k \<in> set pre" | "models ! k = (w, mm)" | "models ! k \<in> set post"
        using h(1) by auto
      then have "\<not> py_lt (?r mm) (?r (snd (models ! k)))"
      proof cases
        case 1
        then show ?thesis by (rule pre_no)
      next
        case 2
        then show ?thesis by simp
      next
        case 3
        then show ?thesis using h(5) by blast
      qed
      then show ?thesis using that snd_row [of k] by simp
    qed
    have lt: "py_lt (snd (?row ! k)) (?r mm) \<or> snd (?row ! k) = NaN" if "k < length pre" for k
    proof -
      have "models ! k = pre ! k" using that h(1) by (simp add: nth_append)
      then have "models ! k \<in> set pre" using that by simp
      then have "py_lt (?r (snd (models ! k))) (?r mm) \<or> ?r (snd (models ! k)) = NaN"
        using h(4) by blast
      moreover have "k < length models" using that h(1) by simp
      ultimately show ?thesis using snd_row [of k] by simp
    qed
    from i at g h(3) le lt show ?thesis by blast
  qed
  with pj sp show ?thesis by simp
qed

lemma rec_lib_scores:
  "model_score rec_lib (Some model_A) [[0]] lens = Inr (Fin (- 2))"
  "model_score rec_lib (Some model_B) [[0]] lens = Inr (Fin (- 3))"
  "model_score rec_lib (Some model_A) [[1]] lens = Inl ScoreFailure"
  "model_score rec_lib (Some model_B) [[1]] lens = Inr (Fin (- 5))"
  "model_score rec_lib (Some model_A) [[2]] lens = Inl ScoreFailure"
  "model_score rec_lib (Some model_B) [[2]] lens = Inl ScoreFailure"
  "model_score rec_lib None X' lens = Inl AttributeError"
  by (simp_all add: model_score_def rec_lib_def model_A_def model_B_def)

text \<open>
  Claim C9 as stated fails when the first pair scores negative infinity without
  raising: the row's maximum is negative infinity, achieved by the only key \<open>A\<close>, and
  the guess is none, since negative infinity does not exceed the initial running best.
\<close>

theorem recognize_no_guess_when_score_neginf:
  "model_score neginf_lib (Some model_A) [[0]] [1] = Inr NegInf
   \<and> recognize neginf_lib [(''A'', Some model_A)] [([[0]], [1])]
       = Inr ([[(''A'', NegInf)]], [None])"
  by (simp add: recognize_def model_score_def neginf_lib_score)

text \<open>
  The theorem at a mapping whose first model scores and whose second model fails: the
  failure records negative infinity and leaves the guess at the first word.
\<close>

theorem recognize_guess_first_max_when_first_scores_witness:
  "distinct (map fst [(''B'', Some model_B), (''A'', Some model_A)])
   \<and> recognize rec_lib [(''B'', Some model_B), (''A'', Some model_A)] [([[1]], [1])]
       = Inr ([[(''B'', Fin (- 5)), (''A'', NegInf)]], [Some ''B''])
   \<and> model_score rec_lib (Some model_B) [[1]] [1] = Inr (Fin (- 5))
   \<and> model_score rec_lib (Some model_A) [[1]] [1] = Inl ScoreFailure
   \<and> [[(''B'', Fin (- 5)), (''A'', NegInf)]] ! 0
       = map (\<lambda>(w, m). (w, recorded rec_lib [[1]] [1] m))
           [(''B'', Some model_B), (''A'', Some model_A)]"
proof -
  let ?models = "[(''B'', Some model_B), (''A'', Some model_A)]"
  let ?tests = "[([[1]], [1::nat])] :: (obs \<times> nat list) list"
  have d: "distinct (map fst ?models)" by simp
  have r: "recognize rec_lib ?models ?tests
       = Inr ([[(''B'', Fin (- 5)), (''A'', NegInf)]], [Some ''B''])"
    by (simp add: recognize_def rec_lib_scores)
  have j: "0 < length ?tests" by simp
  have t: "?tests ! 0 = ([[1]], [1])" by simp
  have ok: "model_score rec_lib (Some model_B) [[1]] [1] = Inr (Fin (- 5))"
    by (simp add: rec_lib_scores)
  note th = recognize_guess_first_max_when_first_scores [OF d r j t refl ok]
  from th [THEN conjunct1] d r ok show ?thesis by (simp add: rec_lib_scores)
qed

text \<open>
  Claim C2, at an input where the code departs from it. Two words, two test sequences;
  on the second sequence the first word fails to score. The comparison after the handler
  reads the log-likelihood left by the last word of the first sequence (\<open>-3\<close>), which
  beats negative infinity, so the guess for the second sequence is the failed word
  \<open>A\<close>, whose recorded value is negative infinity, and not \<open>B\<close>, the key with the
  maximum recorded value \<open>-5\<close>.
\<close>

theorem recognize_stale_guess_after_failure:
  "recognize rec_lib [(''A'', Some model_A), (''B'', Some model_B)]
       [([[0]], [1]), ([[1]], [1])]
     = Inr ([[(''A'', Fin (- 2)), (''B'', Fin (- 3))], [(''A'', NegInf), (''B'', Fin (- 5))]],
            [Some ''A'', Some ''A''])"
  by (simp add: recognize_def rec_lib_scores)

text \<open>
  Claim C3, at an input where the code departs from it. When the very first scoring of
  a run fails, the comparison after the handler reads \<open>logL\<close> before any assignment and
  the \<open>UnboundLocalError\<close> leaves \<open>recognize\<close>: the run is aborted.
\<close>

theorem recognize_raises_when_first_score_fails:
  "recognize rec_lib [(''A'', Some model_A), (''B'', Some model_B)] [([[1]], [1])]
     = Inl UnboundLocalError"
  by (simp add: recognize_def rec_lib_scores)

text \<open>
  Claim C6, at an input where the code departs from it. On the second test sequence
  every word fails to score. The comparison for the first word uses the log-likelihood
  left over from the other word's successful score on the first sequence, so the code
  guesses \<open>A\<close>; comparing the value just recorded (negative infinity), as the spec
  words it, leaves the guess at none.
\<close>

theorem recognize_compares_stale_value:
  "recognize rec_lib [(''A'', Some model_A), (''B'', Some model_B)]
       [([[0]], [1]), ([[2]], [1])]
     = Inr ([[(''A'', Fin (- 2)), (''B'', Fin (- 3))], [(''A'', NegInf), (''B'', NegInf)]],
            [Some ''A'', Some ''A''])
   \<and> recognize_spec rec_lib [(''A'', Some model_A), (''B'', Some model_B)]
       [([[0]], [1]), ([[2]], [1])]
     = ([[(''A'', Fin (- 2)), (''B'', Fin (- 3))], [(''A'', NegInf), (''B'', NegInf)]],
        [Some ''A'', None])"
  by (simp add: recognize_def recognize_spec_def recorded_def rec_lib_scores Let_def)

section \<open>SelectorCV\<close>

subsection \<open>The k-fold splitter\<close>

lemma length_fold_blocks: "length (fold_blocks c sizes) = length sizes"
  by (induction sizes arbitrary: c) auto

lemma concat_fold_blocks: "concat (fold_blocks c sizes) = [c..<c + sum_list sizes]"
proof (induction sizes arbitrary: c)
  case Nil
  show ?case by simp
next
  case (Cons a sizes)
  have "[c..<c + a] @ [c + a..<c + a + sum_list sizes] = [c..<c + (a + sum_list sizes)]"
    by (metis add.assoc le_add1 upt_add_eq_append)
  then show ?case using Cons.IH [of "c + a"] by simp
qed

lemma sum_list_fold_sizes:
  assumes "0 < k"
  shows "sum_list (fold_sizes n k) = n"
proof -
  have r: "n mod k < k" using assms by simp
  have "sum_list (fold_sizes n k) = (\<Sum>i = 0..<k. n div k + (if i < n mod k then 1 else 0))"
    unfolding fold_sizes_def by (simp add: interv_sum_list_conv_sum_set_nat)
  also have "\<dots> = k * (n div k) + (\<Sum>i = 0..<k. if i < n mod k then 1 else 0)"
    by (simp add: sum.distrib)
  also have "(\<Sum>i = 0..<k. if i < n mod k then 1 else 0) = card ({0..<k} \<inter> {i. i < n mod k})"
    by (simp add: sum.If_cases)
  also have "{0..<k} \<inter> {i. i < n mod k} = {0..<n mod k}" using r by auto
  finally show ?thesis by simp
qed

lemma KFold_folds:
  assumes "2 \<le> k" "k \<le> n"
  shows "\<exists>folds. KFold k n = Inr folds \<and> length folds = k \<and>
           concat (map snd folds) = [0..<n] \<and>
           (\<forall>f<length folds. fst (folds ! f) = filter (\<lambda>i. i \<notin> set (snd (folds ! f))) [0..<n])"
proof -
  let ?blocks = "fold_blocks 0 (fold_sizes n k)"
  let ?folds = "map (\<lambda>test_index. (filter (\<lambda>i. i \<notin> set test_index) [0..<n], test_index)) ?blocks"
  have k: "KFold k n = Inr ?folds" using assms by (simp add: KFold_def)
  have l: "length ?folds = k" by (simp add: length_fold_blocks fold_sizes_def)
  have "map snd ?folds = ?blocks" by (simp add: comp_def)
  then have c: "concat (map snd ?folds) = [0..<n]"
    using concat_fold_blocks [of 0 "fold_sizes n k"] sum_list_fold_sizes [of k n] assms by simp
  have t: "\<forall>f<length ?folds. fst (?folds ! f) = filter (\<lambda>i. i \<notin> set (snd (?folds ! f))) [0..<n]"
    by simp
  from k l c t show ?thesis by blast
qed

lemma concat_distinct_unique:
  "distinct (concat xss) \<Longrightarrow> i < length xss \<Longrightarrow> j < length xss \<Longrightarrow>
   x \<in> set (xss ! i) \<Longrightarrow> x \<in> set (xss ! j) \<Longrightarrow> i = j"
proof (induction xss arbitrary: i j)
  case Nil
  then show ?case by simp
next
  case (Cons xs xss)
  have disj: "\<And>k. k < length xss \<Longrightarrow> x \<in> set xs \<Longrightarrow> x \<in> set (xss ! k) \<Longrightarrow> False"
    using Cons.prems(1) by (auto dest: nth_mem)
  show ?case
  proof (cases i)
    case 0
    show ?thesis
    proof (cases j)
      case 0
      with \<open>i = 0\<close> show ?thesis by simp
    next
      case (Suc j')
      with 0 Cons.prems disj [of j'] show ?thesis by auto
    qed
  next
    case (Suc i')
    show ?thesis
    proof (cases j)
      case 0
      with Suc Cons.prems disj [of i'] show ?thesis by auto
    next
      case (Suc j')
      with \<open>i = Suc i'\<close> Cons.prems Cons.IH [of i' j'] show ?thesis by auto
    qed
  qed
qed

lemma KFold_each_index_once:
  assumes "2 \<le> k" "k \<le> n" "KFold k n = Inr folds" "i < n"
  shows "\<exists>!f. f < length folds \<and> i \<in> set (snd (folds ! f))"
proof -
  from KFold_folds [OF assms(1,2)] assms(3) have c: "concat (map snd folds) = [0..<n]" by auto
  then have "i \<in> set (concat (map snd folds))" using assms(4) by simp
  then obtain fd where "fd \<in> set folds" "i \<in> set (snd fd)" by auto
  then obtain f where f: "f < length folds" "i \<in> set (snd (folds ! f))"
    by (metis in_set_conv_nth)
  have d: "distinct (concat (map snd folds))" using c by simp
  have "g = f" if "g < length folds" "i \<in> set (snd (folds ! g))" for g
    using concat_distinct_unique [OF d, of g f i] that f by simp
  with f show ?thesis by blast
qed

lemma fold_blocks_nonempty:
  "\<forall>sz\<in>set sizes. 0 < sz \<Longrightarrow> b \<in> set (fold_blocks c sizes) \<Longrightarrow> b \<noteq> []"
proof (induction sizes arbitrary: c)
  case Nil
  then show ?case by simp
next
  case (Cons a sizes)
  from Cons.prems(2) consider "b = [c..<c + a]" | "b \<in> set (fold_blocks (c + a) sizes)"
    by auto
  then show ?case
  proof cases
    case 1
    then show ?thesis using Cons.prems(1) by simp
  next
    case 2
    then show ?thesis using Cons.IH [of "c + a"] Cons.prems(1) by simp
  qed
qed

lemma KFold_heldout:
  assumes "2 \<le> k" "k \<le> n" "KFold k n = Inr folds" "f \<in> set folds"
  shows "\<exists>i<n. i \<in> set (snd f) \<and> i \<notin> set (fst f)"
proof -
  have pos: "\<forall>sz\<in>set (fold_sizes n k). 0 < sz"
    using assms(1,2) by (auto simp: fold_sizes_def div_greater_zero_iff)
  from assms(1,2,3) have folds: "folds = map (\<lambda>test_index.
      (filter (\<lambda>i. i \<notin> set test_index) [0..<n], test_index)) (fold_blocks 0 (fold_sizes n k))"
    by (simp add: KFold_def)
  with assms(4) obtain b where b: "b \<in> set (fold_blocks 0 (fold_sizes n k))"
    "f = (filter (\<lambda>i. i \<notin> set b) [0..<n], b)" by auto
  from fold_blocks_nonempty [OF pos b(1)] obtain i where i: "i \<in> set b" by (cases b) auto
  from KFold_folds [OF assms(1,2)] assms(3) have "concat (map snd folds) = [0..<n]" by auto
  moreover have "i \<in> set (concat (map snd folds))" using i b(2) assms(4) by force
  ultimately have "i < n" by simp
  with i b(2) show ?thesis by auto
qed

subsection \<open>The fold loop and the candidate loop\<close>

lemma cv_fold_loop_Cons:
  "cv_fold_loop lib s n (f # folds) (logsL, model) =
     (case fold_outcome lib s n f of
        Inl e \<Rightarrow> cv_fold_loop lib s n folds (logsL, model)
      | Inr (m, Inl e) \<Rightarrow> cv_fold_loop lib s n folds (logsL, Some m)
      | Inr (m, Inr logL) \<Rightarrow> cv_fold_loop lib s n folds (logsL @ [logL], Some m))"
  by (cases f) (simp add: fold_outcome_def split: sum.splits prod.splits)

text \<open>The samples do not depend on the incoming value of \<open>model\<close>, and they only grow.\<close>

lemma cv_fold_loop_samples:
  "fst (cv_fold_loop lib s n folds (logsL, model)) =
     logsL @ fst (cv_fold_loop lib s n folds ([], model'))"
proof (induction folds arbitrary: logsL model model')
  case Nil
  show ?case by simp
next
  case (Cons f folds)
  show ?case
  proof (cases "fold_outcome lib s n f")
    case (Inl e)
    then show ?thesis using Cons.IH [of logsL model model'] by (simp add: cv_fold_loop_Cons)
  next
    case (Inr mr)
    obtain m r where mr: "mr = (m, r)" by (cases mr)
    show ?thesis
    proof (cases r)
      case (Inl e)
      then show ?thesis using Inr mr Cons.IH [of logsL "Some m" "Some m"]
        by (simp add: cv_fold_loop_Cons)
    next
      case (Inr logL)
      then show ?thesis
        using \<open>fold_outcome lib s n f = Inr mr\<close> mr
          Cons.IH [of "logsL @ [logL]" "Some m" "Some m"] Cons.IH [of "[logL]" "Some m" "Some m"]
        by (simp add: cv_fold_loop_Cons)
    qed
  qed
qed

text \<open>
  The value of \<open>model\<close> after the folds: unchanged when no fit succeeded, and otherwise
  the model of the last fold whose fit succeeded.
\<close>

lemma cv_fold_loop_model:
  "(snd (cv_fold_loop lib s n folds (logsL, model)) = model \<and>
      fst (cv_fold_loop lib s n folds (logsL, model)) = logsL \<and>
      (\<forall>g\<in>set folds. \<exists>e. fold_outcome lib s n g = Inl e))
   \<or> (\<exists>pre f post m r. folds = pre @ f # post \<and> fold_outcome lib s n f = Inr (m, r) \<and>
        snd (cv_fold_loop lib s n folds (logsL, model)) = Some m \<and>
        (\<forall>g\<in>set post. \<exists>e. fold_outcome lib s n g = Inl e))"
proof (induction folds arbitrary: logsL model)
  case Nil
  show ?case by simp
next
  case (Cons f folds)
  have later: "?case" if st: "cv_fold_loop lib s n (f # folds) (logsL, model)
        = cv_fold_loop lib s n folds (logsL', Some m)" and o: "fold_outcome lib s n f = Inr (m, r)"
    for logsL' m r
    using Cons.IH [of logsL' "Some m"]
  proof (elim disjE exE conjE)
    assume a: "snd (cv_fold_loop lib s n folds (logsL', Some m)) = Some m"
      and b: "\<forall>g\<in>set folds. \<exists>e. fold_outcome lib s n g = Inl e"
    have "f # folds = [] @ f # folds" by simp
    with a b o st show ?thesis by (intro disjI2) (metis (no_types, lifting))
  next
    fix pre f' post m' r'
    assume h: "folds = pre @ f' # post" "fold_outcome lib s n f' = Inr (m', r')"
      "snd (cv_fold_loop lib s n folds (logsL', Some m)) = Some m'"
      "\<forall>g\<in>set post. \<exists>e. fold_outcome lib s n g = Inl e"
    have "f # folds = (f # pre) @ f' # post" using h(1) by simp
    with h(2,3,4) st show ?thesis by (intro disjI2) (metis (no_types, lifting))
  qed
  show ?case
  proof (cases "fold_outcome lib s n f")
    case (Inl e)
    then have st: "cv_fold_loop lib s n (f # folds) (logsL, model)
        = cv_fold_loop lib s n folds (logsL, model)"
      by (simp add: cv_fold_loop_Cons)
    from Cons.IH [of logsL model] show ?thesis
    proof (elim disjE exE conjE)
      assume "snd (cv_fold_loop lib s n folds (logsL, model)) = model"
        "fst (cv_fold_loop lib s n folds (logsL, model)) = logsL"
        "\<forall>g\<in>set folds. \<exists>e. fold_outcome lib s n g = Inl e"
      with Inl st show ?thesis by simp
    next
      fix pre f' post m' r'
      assume h: "folds = pre @ f' # post" "fold_outcome lib s n f' = Inr (m', r')"
        "snd (cv_fold_loop lib s n folds (logsL, model)) = Some m'"
        "\<forall>g\<in>set post. \<exists>e. fold_outcome lib s n g = Inl e"
      have "f # folds = (f # pre) @ f' # post" using h(1) by simp
      with h(2,3,4) st show ?thesis by (intro disjI2) (metis (no_types, lifting))
    qed
  next
    case (Inr mr)
    obtain m r where mr: "mr = (m, r)" by (cases mr)
    show ?thesis
    proof (cases r)
      case (Inl e)
      have "cv_fold_loop lib s n (f # folds) (logsL, model)
        = cv_fold_loop lib s n folds (logsL, Some m)"
        using Inr mr Inl by (simp add: cv_fold_loop_Cons)
      then show ?thesis using later Inr mr by blast
    next
      case (Inr logL)
      have "cv_fold_loop lib s n (f # folds) (logsL, model)
        = cv_fold_loop lib s n folds (logsL @ [logL], Some m)"
        using \<open>fold_outcome lib s n f = Inr mr\<close> mr Inr by (simp add: cv_fold_loop_Cons)
      then show ?thesis using later \<open>fold_outcome lib s n f = Inr mr\<close> mr by blast
    qed
  qed
qed

lemma cv_fold_loop_model_None:
  "snd (cv_fold_loop lib s n folds (logsL, model)) =
     (case snd (cv_fold_loop lib s n folds ([], None)) of None \<Rightarrow> model | Some m \<Rightarrow> Some m)"
proof (induction folds arbitrary: logsL model)
  case Nil
  show ?case by simp
next
  case (Cons f folds)
  show ?case
  proof (cases "fold_outcome lib s n f")
    case (Inl e)
    then show ?thesis using Cons.IH [of logsL model] by (simp add: cv_fold_loop_Cons)
  next
    case (Inr mr)
    obtain m r where mr: "mr = (m, r)" by (cases mr)
    have a: "snd (cv_fold_loop lib s n folds (l, Some m)) =
        (case snd (cv_fold_loop lib s n folds ([], None)) of None \<Rightarrow> Some m | Some m' \<Rightarrow> Some m')"
      for l by (rule Cons.IH)
    show ?thesis using Inr mr a
      by (cases r) (auto simp: cv_fold_loop_Cons split: option.splits)
  qed
qed

lemma cv_fold_loop_samples_model:
  assumes "fst (cv_fold_loop lib s n folds ([], model)) \<noteq> []"
  shows "\<exists>m. snd (cv_fold_loop lib s n folds ([], None)) = Some m"
proof -
  have "fst (cv_fold_loop lib s n folds ([], None)) \<noteq> []"
    using assms cv_fold_loop_samples [of lib s n folds "[]" model None] by simp
  with cv_fold_loop_model [of lib s n folds "[]" None] show ?thesis by auto
qed

lemma cv_samples_rel:
  assumes "cv_samples sm lib s n None = Inr (logsL, model)"
  shows "\<exists>model'. cv_samples sm lib s n model0 = Inr (logsL, model') \<and>
           (logsL \<noteq> [] \<longrightarrow> model' = model)"
proof (cases "length (sequences s) = 1")
  case True
  with assms show ?thesis by (auto simp: cv_samples_def Let_def split: sum.splits)
next
  case False
  with assms obtain folds where f: "cv_folds sm s = Inr folds"
    and r: "cv_fold_loop lib s n folds ([], None) = (logsL, model)"
    by (auto simp: cv_samples_def split: sum.splits)
  have c: "cv_samples sm lib s n model0 = Inr (cv_fold_loop lib s n folds ([], model0))"
    using False f by (simp add: cv_samples_def)
  have l: "fst (cv_fold_loop lib s n folds ([], model0)) = logsL"
    using cv_fold_loop_samples [of lib s n folds "[]" model0 None] r by simp
  have m: "snd (cv_fold_loop lib s n folds ([], model0)) = model" if "logsL \<noteq> []"
  proof -
    from cv_fold_loop_samples_model [of lib s n folds None] r that
    obtain m where "snd (cv_fold_loop lib s n folds ([], None)) = Some m" by auto
    with cv_fold_loop_model_None [of lib s n folds "[]" model0] r show ?thesis by simp
  qed
  show ?thesis using c l m by (cases "cv_fold_loop lib s n folds ([], model0)") auto
qed

lemma cv_samples_no_raise:
  assumes "length (sequences s) = 1 \<or> (\<exists>folds. cv_folds sm s = Inr folds)"
  shows "\<exists>r. cv_samples sm lib s n model0 = Inr r"
  using assms by (auto simp: cv_samples_def Let_def split: sum.splits)

lemma cv_loop_track:
  assumes ok: "length (sequences s) = 1 \<or> (\<exists>folds. cv_folds sm s = Inr folds)"
  shows "\<exists>model'. cv_loop sm ar lib s ns (sv, smod, model0) =
           Inr (fst (track (\<lambda>a b. py_lt b a) (map (cv_result sm ar lib s) ns) (sv, smod)),
                snd (track (\<lambda>a b. py_lt b a) (map (cv_result sm ar lib s) ns) (sv, smod)),
                model')"
proof (induction ns arbitrary: sv smod model0)
  case Nil
  show ?case by simp
next
  case (Cons n ns)
  from cv_samples_no_raise [OF ok, of lib n None] obtain logsL model where
    r0: "cv_samples sm lib s n None = Inr (logsL, model)" by force
  from cv_samples_rel [OF r0, of model0] obtain model' where
    r: "cv_samples sm lib s n model0 = Inr (logsL, model')"
    and e: "logsL \<noteq> [] \<longrightarrow> model' = model" by blast
  show ?case
  proof (cases "logsL = []")
    case True
    then have "cv_result sm ar lib s n = None" using r0 by (simp add: cv_result_def)
    then show ?thesis using Cons.IH [of sv smod model'] r True by simp
  next
    case False
    let ?avg = "f_mean ar logsL"
    have cr: "cv_result sm ar lib s n = Some (?avg, model)"
      using r0 False by (simp add: cv_result_def)
    have mm: "model' = model" using e False by simp
    show ?thesis
    proof (cases "py_lt sv ?avg")
      case True
      then show ?thesis using Cons.IH [of ?avg model model] r False cr mm
        by (simp add: Let_def)
    next
      case False
      then show ?thesis using Cons.IH [of sv smod model] r \<open>logsL \<noteq> []\<close> cr mm
        by (simp add: Let_def)
    qed
  qed
qed

lemma SelectorCV_select_track:
  assumes "length (sequences s) = 1 \<or> (\<exists>folds. cv_folds sm s = Inr folds)"
  shows "SelectorCV_select sm ar lib s =
     Inr (snd (track (\<lambda>a b. py_lt b a)
            (map (cv_result sm ar lib s) [min_n_components s .. max_n_components s])
            (NegInf, None)))"
  using cv_loop_track [OF assms, of ar lib "[min_n_components s .. max_n_components s]"
          NegInf None None]
  by (auto simp: SelectorCV_select_def)

text \<open>What a candidate's result is made of, in the two branches.\<close>

lemma cv_result_single:
  assumes "length (sequences s) = 1"
  shows "cv_result sm ar lib s n = Some (v, mo) \<longleftrightarrow>
     (\<exists>m logL. GaussianHMM_fit lib n (random_state s) (X_obs s) (lengths s) = Inr m \<and>
        score_impl lib m (X_obs s) (lengths s) = Some logL \<and> v = f_mean ar [logL] \<and>
        mo = Some m)"
  using assms
  by (auto simp: cv_result_def cv_samples_def base_model_def model_score_def Let_def
           split: sum.splits option.splits)

lemma cv_result_folds:
  assumes "length (sequences s) \<noteq> 1" "cv_folds sm s = Inr folds"
    "cv_result sm ar lib s n = Some (v, mo)"
  shows "\<exists>pre f post m r. folds = pre @ f # post \<and> fold_outcome lib s n f = Inr (m, r) \<and>
           mo = Some m \<and> (\<forall>g\<in>set post. \<exists>e. fold_outcome lib s n g = Inl e)"
proof -
  from assms have r: "snd (cv_fold_loop lib s n folds ([], None)) = mo"
    and ne: "fst (cv_fold_loop lib s n folds ([], None)) \<noteq> []"
    by (auto simp: cv_result_def cv_samples_def split: sum.splits prod.splits if_splits)
  from cv_fold_loop_model [of lib s n folds "[]" None] ne r show ?thesis by auto
qed

lemma cv_fold_loop_sample_exists:
  assumes "f \<in> set folds" "fold_outcome lib s n f = Inr (m, Inr logL)"
  shows "fst (cv_fold_loop lib s n folds (logsL, model)) \<noteq> []"
  using assms
proof (induction folds arbitrary: logsL model)
  case Nil
  then show ?case by simp
next
  case (Cons g folds)
  show ?case
  proof (cases "g = f")
    case True
    have "fst (cv_fold_loop lib s n folds (logsL @ [logL], Some m)) \<noteq> []"
      using cv_fold_loop_samples [of lib s n folds "logsL @ [logL]" "Some m" None] by simp
    then show ?thesis using True Cons.prems(2) by (simp add: cv_fold_loop_Cons)
  next
    case False
    then have "f \<in> set folds" using Cons.prems by simp
    from Cons.IH [OF this Cons.prems(2)] show ?thesis
      by (auto simp: cv_fold_loop_Cons split: sum.splits)
  qed
qed

text \<open>
  With indices inside the sequence list, as the splitter produces them, the samples of
  the fold loop are the samples of the folds as the spec words them, in fold order.
\<close>

lemma collect_list_get:
  "\<forall>i\<in>set idxs. i < length xs \<Longrightarrow> collect (list_get xs) idxs = Inr (map (\<lambda>i. xs ! i) idxs)"
  by (induction idxs) (auto simp: list_get_def)

lemma combine_sequences_valid:
  assumes "\<forall>i\<in>set idxs. i < length seqs"
  shows "combine_sequences idxs seqs
     = Inr (concat (map (\<lambda>i. seqs ! i) idxs), map length (map (\<lambda>i. seqs ! i) idxs))"
  by (simp add: combine_sequences_def collect_list_get [OF assms])

lemma fold_outcome_valid:
  assumes "\<forall>i\<in>set (fst fd). i < length (sequences s)"
    "\<forall>i\<in>set (snd fd). i < length (sequences s)"
  shows "(case fold_outcome lib s n fd of
            Inr (m, Inr logL) \<Rightarrow> Some logL | _ \<Rightarrow> None) = held_out_sample lib s n fd"
  by (simp add: fold_outcome_def held_out_sample_def model_score_def
        combine_sequences_valid [OF assms(1)] combine_sequences_valid [OF assms(2)]
      split: sum.splits option.splits)

lemma cv_fold_loop_map_filter:
  assumes "\<forall>fd\<in>set folds. (\<forall>i\<in>set (fst fd). i < length (sequences s)) \<and>
                             (\<forall>i\<in>set (snd fd). i < length (sequences s))"
  shows "fst (cv_fold_loop lib s n folds (logsL, model))
     = logsL @ List.map_filter (held_out_sample lib s n) folds"
  using assms
proof (induction folds arbitrary: logsL model)
  case Nil
  show ?case by (simp add: List.map_filter_simps)
next
  case (Cons fd folds)
  have v: "\<forall>i\<in>set (fst fd). i < length (sequences s)" "\<forall>i\<in>set (snd fd). i < length (sequences s)"
    using Cons.prems by simp_all
  have rest: "\<forall>fd\<in>set folds. (\<forall>i\<in>set (fst fd). i < length (sequences s)) \<and>
                             (\<forall>i\<in>set (snd fd). i < length (sequences s))"
    using Cons.prems by simp
  note ho = fold_outcome_valid [OF v, of lib n, symmetric]
  show ?case
  proof (cases "fold_outcome lib s n fd")
    case (Inl e)
    then show ?thesis using ho Cons.IH [OF rest, of logsL model]
      by (simp add: cv_fold_loop_Cons List.map_filter_simps)
  next
    case (Inr mr)
    obtain m r where mr: "mr = (m, r)" by (cases mr)
    show ?thesis
    proof (cases r)
      case (Inl e)
      then show ?thesis using Inr mr ho Cons.IH [OF rest, of logsL "Some m"]
        by (simp add: cv_fold_loop_Cons List.map_filter_simps)
    next
      case (Inr logL)
      then show ?thesis
        using \<open>fold_outcome lib s n fd = Inr mr\<close> mr ho
          Cons.IH [OF rest, of "logsL @ [logL]" "Some m"]
        by (simp add: cv_fold_loop_Cons List.map_filter_simps)
    qed
  qed
qed

lemma KFold_indices_valid:
  assumes "2 \<le> k" "k \<le> n" "KFold k n = Inr folds"
  shows "\<forall>fd\<in>set folds. (\<forall>i\<in>set (fst fd). i < n) \<and> (\<forall>i\<in>set (snd fd). i < n)"
proof
  fix fd assume fd: "fd \<in> set folds"
  from KFold_folds [OF assms(1,2)] assms(3) have c: "concat (map snd folds) = [0..<n]"
    and t: "\<forall>f<length folds. fst (folds ! f) = filter (\<lambda>i. i \<notin> set (snd (folds ! f))) [0..<n]"
    by auto
  from fd obtain f where f: "f < length folds" "folds ! f = fd" by (auto simp: in_set_conv_nth)
  have "set (snd fd) \<subseteq> set (concat (map snd folds))" using fd by auto
  then have a: "\<forall>i\<in>set (snd fd). i < n" using c by auto
  have "fst fd = filter (\<lambda>i. i \<notin> set (snd fd)) [0..<n]" using t f by auto
  then have "set (fst fd) \<subseteq> {0..<n}" by (metis filter_is_subset set_upt)
  then have b: "\<forall>i\<in>set (fst fd). i < n" by auto
  from a b show "(\<forall>i\<in>set (fst fd). i < n) \<and> (\<forall>i\<in>set (snd fd). i < n)" by simp
qed

subsection \<open>Samples and folds\<close>

lemma cv_samples_single:
  assumes "length (sequences s) = 1"
  shows "cv_samples sm lib s n model0 =
     Inr (case model_score lib (base_model lib s n) (X_obs s) (lengths s) of
            Inl e \<Rightarrow> [] | Inr logL \<Rightarrow> [logL], base_model lib s n)"
  using assms by (simp add: cv_samples_def Let_def split: sum.splits)

lemma cv_loop_single_indep:
  assumes "length (sequences s) = 1"
  shows "cv_loop sm ar lib s ns st = cv_loop sm' ar lib s ns st"
proof (induction ns arbitrary: st)
  case Nil
  show ?case by simp
next
  case (Cons n ns)
  obtain a b c where st: "st = (a, b, c)" by (cases st)
  have "cv_samples sm lib s n c = cv_samples sm' lib s n c"
    by (simp add: cv_samples_single [OF assms])
  then show ?case using Cons.IH st by (simp add: Let_def split: sum.splits prod.splits)
qed

text \<open>
  Claim C5, amended. For a word with exactly one sequence, a candidate \<open>n\<close> yields
  exactly one log-likelihood sample, obtained by fitting and scoring on the word's full
  observations, when that fit and that scoring succeed, and no sample otherwise; the
  splitter is never consulted (the selection is the same with a splitter that always
  raises). For a word with two or more sequences the folds are those of the k-fold
  splitter for \<open>min(3, number of sequences)\<close>: that many folds, whose held-out parts
  in order make up the index list \<open>0, 1, ...\<close> (contiguous, not shuffled), so every
  sequence is held out in exactly one fold, each training part being the rest; and the
  samples collected for a candidate are exactly, fold by fold in order, the score on the
  held-out sequences of the model fitted on the training sequences, for the folds where
  both succeed.
\<close>

theorem SelectorCV_one_sample_or_none_and_folds:
  fixes lib :: "'p hmmlearn"
  shows "(length (sequences s) = 1 \<longrightarrow>
            (\<forall>n m logL model0.
                GaussianHMM_fit lib n (random_state s) (X_obs s) (lengths s) = Inr m \<and>
                score_impl lib m (X_obs s) (lengths s) = Some logL
                \<longrightarrow> cv_samples split_method lib s n model0 = Inr ([logL], Some m))
          \<and> (\<forall>n model0.
                (\<forall>m logL. GaussianHMM_fit lib n (random_state s) (X_obs s) (lengths s) = Inr m
                    \<longrightarrow> score_impl lib m (X_obs s) (lengths s) \<noteq> Some logL)
                \<longrightarrow> (\<exists>model. cv_samples split_method lib s n model0 = Inr ([], model)))
          \<and> SelectorCV_select split_method ar lib s
              = SelectorCV_select (\<lambda>n_splits n_samples. Inl ValueError) ar lib s)
       \<and> (2 \<le> length (sequences s) \<longrightarrow>
            (\<exists>folds. cv_folds KFold s = Inr folds \<and>
               length folds = min 3 (length (sequences s)) \<and>
               concat (map snd folds) = [0..<length (sequences s)] \<and>
               (\<forall>i<length (sequences s). \<exists>!f. f < length folds \<and> i \<in> set (snd (folds ! f))) \<and>
               (\<forall>f<length folds.
                   fst (folds ! f)
                     = filter (\<lambda>i. i \<notin> set (snd (folds ! f))) [0..<length (sequences s)]) \<and>
               (\<forall>n model0. \<exists>model.
                   cv_samples KFold lib s n model0
                     = Inr (List.map_filter (held_out_sample lib s n) folds, model))))"
proof (intro conjI impI)
  assume one: "length (sequences s) = 1"
  show "\<forall>n m logL model0.
                GaussianHMM_fit lib n (random_state s) (X_obs s) (lengths s) = Inr m \<and>
                score_impl lib m (X_obs s) (lengths s) = Some logL
                \<longrightarrow> cv_samples split_method lib s n model0 = Inr ([logL], Some m)"
    by (simp add: cv_samples_single [OF one] base_model_def model_score_def)
  show "\<forall>n model0.
                (\<forall>m logL. GaussianHMM_fit lib n (random_state s) (X_obs s) (lengths s) = Inr m
                    \<longrightarrow> score_impl lib m (X_obs s) (lengths s) \<noteq> Some logL)
                \<longrightarrow> (\<exists>model. cv_samples split_method lib s n model0 = Inr ([], model))"
    by (auto simp: cv_samples_single [OF one] base_model_def model_score_def
             split: sum.splits option.splits)
  show "SelectorCV_select split_method ar lib s
              = SelectorCV_select (\<lambda>n_splits n_samples. Inl ValueError) ar lib s"
    unfolding SelectorCV_select_def
    using cv_loop_single_indep [OF one, of split_method ar lib _ _
            "\<lambda>n_splits n_samples. Inl ValueError"]
    by simp
next
  assume two: "2 \<le> length (sequences s)"
  let ?n = "length (sequences s)"
  have k: "2 \<le> min ?n 3" "min ?n 3 \<le> ?n" using two by simp_all
  from KFold_folds [OF k] obtain folds where
    f: "KFold (min ?n 3) ?n = Inr folds" "length folds = min ?n 3"
       "concat (map snd folds) = [0..<?n]"
       "\<forall>f<length folds. fst (folds ! f) = filter (\<lambda>i. i \<notin> set (snd (folds ! f))) [0..<?n]"
    by blast
  have cf: "cv_folds KFold s = Inr folds" using f(1) by (simp add: cv_folds_def)
  have once: "\<forall>i<?n. \<exists>!f. f < length folds \<and> i \<in> set (snd (folds ! f))"
    using KFold_each_index_once [OF k f(1)] by blast
  note valid = KFold_indices_valid [OF k f(1)]
  have sm: "\<forall>n model0. \<exists>model.
              cv_samples KFold lib s n model0
                = Inr (List.map_filter (held_out_sample lib s n) folds, model)"
  proof (intro allI)
    fix n model0
    have c: "cv_samples KFold lib s n model0 = Inr (cv_fold_loop lib s n folds ([], model0))"
      using two cf by (simp add: cv_samples_def)
    have "fst (cv_fold_loop lib s n folds ([], model0))
        = List.map_filter (held_out_sample lib s n) folds"
      using cv_fold_loop_map_filter [OF valid, of lib n "[]" model0] by simp
    with c show "\<exists>model. cv_samples KFold lib s n model0
                = Inr (List.map_filter (held_out_sample lib s n) folds, model)"
      by (cases "cv_fold_loop lib s n folds ([], model0)") auto
  qed
  have "length folds = min 3 ?n" using f(2) by (simp add: min.commute)
  with cf f(3,4) once sm
  show "\<exists>folds. cv_folds KFold s = Inr folds \<and>
               length folds = min 3 (length (sequences s)) \<and>
               concat (map snd folds) = [0..<length (sequences s)] \<and>
               (\<forall>i<length (sequences s). \<exists>!f. f < length folds \<and> i \<in> set (snd (folds ! f))) \<and>
               (\<forall>f<length folds.
                   fst (folds ! f)
                     = filter (\<lambda>i. i \<notin> set (snd (folds ! f))) [0..<length (sequences s)]) \<and>
               (\<forall>n model0. \<exists>model.
                   cv_samples KFold lib s n model0
                     = Inr (List.map_filter (held_out_sample lib s n) folds, model))"
    by blast
qed

text \<open>
  Claim C5 as stated fails for a candidate whose fit fails: the word has one sequence,
  the fit for 3 states fails, and candidate 3 produces no sample at all.
\<close>

theorem SelectorCV_no_sample_when_fit_fails:
  "length (sequences single_selector) = 1
   \<and> base_model demo_lib single_selector 3 = None
   \<and> cv_samples KFold demo_lib single_selector 3 None = Inr ([], None)"
  by (simp add: cv_samples_def base_model_def model_score_def GaussianHMM_fit_def
        demo_lib_def single_selector_def)

lemma KFold_3_4: "KFold 3 4 = Inr [([2, 3], [0, 1]), ([0, 1, 3], [2]), ([0, 1, 2], [3])]"
  by (simp add: KFold_def fold_sizes_def upt_rec)

lemma cv_selector_fields:
  "sequences cv_selector = [[[9]], [[1], [2]]]" "random_state cv_selector = 14"
  "min_n_components cv_selector = 2" "max_n_components cv_selector = 3"
  by (simp_all add: cv_selector_def)

lemma four_selector_fields:
  "sequences four_selector = [[[1]], [[2]], [[3]], [[4]]]" "random_state four_selector = 14"
  "min_n_components four_selector = 2" "max_n_components four_selector = 4"
  "X_obs four_selector = [[1], [2], [3], [4]]" "lengths four_selector = [1, 1, 1, 1]"
  by (simp_all add: four_selector_def)

lemma single_selector_fields:
  "sequences single_selector = [[[1], [2]]]" "random_state single_selector = 14"
  "X_obs single_selector = [[1], [2]]" "lengths single_selector = [2]"
  "min_n_components single_selector = 2" "max_n_components single_selector = 4"
  by (simp_all add: single_selector_def)

lemma cv_lib_fit:
  "GaussianHMM_fit cv_lib n seed X' lens =
     (if X' = [[9]] then Inl FitFailure
      else Inr \<lparr>n_components = n, n_features = 1, params = X'\<rparr>)"
  by (simp add: GaussianHMM_fit_def cv_lib_def)

lemma cv_lib_score:
  "score_impl cv_lib m X' lens =
     (if X' = [] then None
      else Some (Fin (- (real_of_int (n_components m) * real (length X')))))"
  by (simp add: cv_lib_def)

lemma cv_selector_folds: "cv_folds KFold cv_selector = Inr [([1], [0]), ([0], [1])]"
  by (simp add: cv_folds_def cv_selector_fields KFold_def fold_sizes_def upt_rec)

lemma cv_selector_outcomes:
  "fold_outcome cv_lib cv_selector n ([1], [0])
       = Inr (\<lparr>n_components = n, n_features = 1, params = [[1], [2]]\<rparr>,
              Inr (Fin (- real_of_int n)))"
  "fold_outcome cv_lib cv_selector n ([0], [1]) = Inl FitFailure"
  by (simp_all add: fold_outcome_def combine_sequences_def list_get_def cv_selector_fields
        cv_lib_fit cv_lib_score model_score_def)

lemma cv_selector_samples:
  "cv_samples KFold cv_lib cv_selector n model0
     = Inr ([Fin (- real_of_int n)],
            Some \<lparr>n_components = n, n_features = 1, params = [[1], [2]]\<rparr>)"
proof -
  have "length (sequences cv_selector) \<noteq> 1" by (simp add: cv_selector_fields)
  then show ?thesis
    by (simp add: cv_samples_def cv_selector_folds cv_fold_loop_Cons cv_selector_outcomes
          del: One_nat_def)
qed

lemma four_selector_folds:
  "cv_folds KFold four_selector
     = Inr [([2, 3], [0, 1]), ([0, 1, 3], [2]), ([0, 1, 2], [3])]"
  by (simp add: cv_folds_def four_selector_fields KFold_def fold_sizes_def upt_rec)

lemma four_selector_outcomes:
  "fold_outcome cv_lib four_selector n ([2, 3], [0, 1])
     = Inr (\<lparr>n_components = n, n_features = 1, params = [[3], [4]]\<rparr>,
            Inr (Fin (- (real_of_int n * 2))))"
  "fold_outcome cv_lib four_selector n ([0, 1, 3], [2])
     = Inr (\<lparr>n_components = n, n_features = 1, params = [[1], [2], [4]]\<rparr>,
            Inr (Fin (- real_of_int n)))"
  "fold_outcome cv_lib four_selector n ([0, 1, 2], [3])
     = Inr (\<lparr>n_components = n, n_features = 1, params = [[1], [2], [3]]\<rparr>,
            Inr (Fin (- real_of_int n)))"
  by (simp_all add: fold_outcome_def combine_sequences_def list_get_def four_selector_fields
        cv_lib_fit cv_lib_score model_score_def)

lemma four_selector_samples:
  "cv_samples KFold cv_lib four_selector n model0
     = Inr ([Fin (- (real_of_int n * 2)), Fin (- real_of_int n), Fin (- real_of_int n)],
            Some \<lparr>n_components = n, n_features = 1, params = [[1], [2], [3]]\<rparr>)"
proof -
  have "length (sequences four_selector) \<noteq> 1" by (simp add: four_selector_fields)
  then show ?thesis
    by (simp add: cv_samples_def four_selector_folds cv_fold_loop_Cons four_selector_outcomes
          del: One_nat_def)
qed

text \<open>
  The theorem at a word with one sequence (candidate 2 yields the one sample \<open>-10\<close>)
  and at a word with four sequences: three folds, held-out parts \<open>[0, 1], [2], [3]\<close>,
  and for candidate 2 the three samples \<open>-4, -2, -2\<close> of these folds.
\<close>

theorem SelectorCV_one_sample_or_none_and_folds_witness:
  "length (sequences single_selector) = 1
   \<and> cv_samples KFold demo_lib single_selector 2 None
       = Inr ([Fin (- 10)], Some \<lparr>n_components = 2, n_features = 1, params = ()\<rparr>)
   \<and> 2 \<le> length (sequences four_selector)
   \<and> cv_folds KFold four_selector
       = Inr [([2, 3], [0, 1]), ([0, 1, 3], [2]), ([0, 1, 2], [3])]
   \<and> (\<exists>folds. cv_folds KFold four_selector = Inr folds \<and> length folds = 3
         \<and> concat (map snd folds) = [0, 1, 2, 3])
   \<and> List.map_filter (held_out_sample cv_lib four_selector 2)
         [([2, 3], [0, 1]), ([0, 1, 3], [2]), ([0, 1, 2], [3])]
       = [Fin (- 4), Fin (- 2), Fin (- 2)]"
proof -
  have one: "length (sequences single_selector) = 1" by (simp add: single_selector_fields)
  have four: "2 \<le> length (sequences four_selector)" by (simp add: four_selector_fields)
  have len4: "length (sequences four_selector) = 4" by (simp add: four_selector_fields)
  note t1 = SelectorCV_one_sample_or_none_and_folds
              [where s = single_selector and lib = demo_lib and split_method = KFold
                 and ar = ideal_arith, THEN conjunct1, rule_format, OF one]
  note t2 = SelectorCV_one_sample_or_none_and_folds
              [where s = four_selector and lib = cv_lib and split_method = KFold
                 and ar = ideal_arith, THEN conjunct2, rule_format, OF four]
  have a: "cv_samples KFold demo_lib single_selector 2 None
       = Inr ([Fin (- 10)], Some \<lparr>n_components = 2, n_features = 1, params = ()\<rparr>)"
    by (rule t1 [THEN conjunct1, rule_format]) (simp add: demo_lib_fit demo_lib_score)
  note b = four_selector_folds
  from t2 obtain folds where f: "cv_folds KFold four_selector = Inr folds"
    and fs: "\<forall>n model0. \<exists>model. cv_samples KFold cv_lib four_selector n model0
                = Inr (List.map_filter (held_out_sample cv_lib four_selector n) folds, model)"
    by blast
  from fs obtain model where
    "cv_samples KFold cv_lib four_selector 2 None
       = Inr (List.map_filter (held_out_sample cv_lib four_selector 2) folds, model)"
    by blast
  then have "List.map_filter (held_out_sample cv_lib four_selector 2) folds
       = [Fin (- 4), Fin (- 2), Fin (- 2)]"
    by (simp add: four_selector_samples)
  moreover have "folds = [([2, 3], [0, 1]), ([0, 1, 3], [2]), ([0, 1, 2], [3])]"
    using f b by simp
  ultimately have c: "List.map_filter (held_out_sample cv_lib four_selector 2)
         [([2, 3], [0, 1]), ([0, 1, 3], [2]), ([0, 1, 2], [3])]
       = [Fin (- 4), Fin (- 2), Fin (- 2)]"
    by (simp only:)
  have d: "\<exists>folds. cv_folds KFold four_selector = Inr folds \<and> length folds = 3
         \<and> concat (map snd folds) = [0, 1, 2, 3]"
    using b by simp
  from one a four b c d show ?thesis by blast
qed

text \<open>
  Claim C7, amended. For a word with two or more sequences, a model returned by
  \<open>SelectorCV.select\<close> is, for the winning candidate \<open>n\<close>, the model fitted with
  \<open>n\<close> states on the training part of the last fold whose fit succeeded during that
  \<open>n\<close>'s fold iteration (every later fold raised before assigning a model), whether or
  not scoring that fold succeeded. It is a fold's model, not one fitted on the word's full
  observations: the training part of that fold leaves out at least one sequence, the one
  held out. The winning candidate is the first candidate of the range whose mean of
  samples, as \<open>np.mean\<close> computes it, is above negative infinity and not below the
  mean of any candidate with a sample.
\<close>

theorem SelectorCV_returns_last_fitted_fold_model:
  fixes lib :: "'p hmmlearn"
  assumes two: "2 \<le> length (sequences s)"
    and sel: "SelectorCV_select KFold ar lib s = Inr (Some m)"
  shows "\<exists>n folds pre f post r avg.
           min_n_components s \<le> n \<and> n \<le> max_n_components s \<and>
           cv_folds KFold s = Inr folds \<and> folds = pre @ f # post \<and>
           fold_outcome lib s n f = Inr (m, r) \<and>
           (\<exists>training_X training_lengths.
               combine_sequences (fst f) (sequences s) = Inr (training_X, training_lengths) \<and>
               GaussianHMM_fit lib n (random_state s) training_X training_lengths = Inr m) \<and>
           (\<exists>i<length (sequences s). i \<in> set (snd f) \<and> i \<notin> set (fst f)) \<and>
           (\<forall>g\<in>set post. \<exists>e. fold_outcome lib s n g = Inl e) \<and>
           cv_result KFold ar lib s n = Some (avg, Some m) \<and>
           avg = f_mean ar (List.map_filter (held_out_sample lib s n) folds) \<and>
           py_lt NegInf avg \<and>
           (\<forall>n' avg' m'. min_n_components s \<le> n' \<and> n' \<le> max_n_components s \<and>
               cv_result KFold ar lib s n' = Some (avg', m')
               \<longrightarrow> \<not> py_lt avg avg' \<and> (n' < n \<longrightarrow> py_lt avg' avg \<or> avg' = NaN))"
proof -
  let ?lo = "min_n_components s" and ?hi = "max_n_components s"
  let ?len = "length (sequences s)"
  have k: "2 \<le> min ?len 3" "min ?len 3 \<le> ?len" using two by simp_all
  from KFold_folds [OF k] obtain folds where cf: "cv_folds KFold s = Inr folds"
    by (auto simp: cv_folds_def)
  have ne1: "?len \<noteq> 1" using two by simp
  have tr: "SelectorCV_select KFold ar lib s =
     Inr (snd (track (\<lambda>a b. py_lt b a) (map (cv_result KFold ar lib s) [?lo..?hi])
            (NegInf, None)))"
    by (rule SelectorCV_select_track) (use cf in blast)
  have ninf: "NegInf \<noteq> NaN" by simp
  from track_upto [OF float_order_greater ninf, of "cv_result KFold ar lib s" ?lo ?hi None]
  show ?thesis
  proof (elim disjE exE conjE)
    assume "track (\<lambda>a b. py_lt b a) (map (cv_result KFold ar lib s) [?lo..?hi]) (NegInf, None)
              = (NegInf, None)"
    with tr sel show ?thesis by simp
  next
    fix n v mo
    assume h: "?lo \<le> n" "n \<le> ?hi" "cv_result KFold ar lib s n = Some (v, mo)"
      "track (\<lambda>a b. py_lt b a) (map (cv_result KFold ar lib s) [?lo..?hi]) (NegInf, None)
         = (v, mo)"
      "py_lt NegInf v"
      "\<forall>n' v' m'. ?lo \<le> n' \<and> n' \<le> ?hi \<and> cv_result KFold ar lib s n' = Some (v', m') \<longrightarrow>
          \<not> py_lt v v' \<and> (n' < n \<longrightarrow> py_lt v' v \<or> v' = NaN)"
    have mo: "mo = Some m" using tr sel h(4) by simp
    from cv_result_folds [OF ne1 cf h(3)] mo obtain pre f post r where
      d: "folds = pre @ f # post" "fold_outcome lib s n f = Inr (m, r)"
         "\<forall>g\<in>set post. \<exists>e. fold_outcome lib s n g = Inl e"
      by auto
    from d(2) have fit: "\<exists>training_X training_lengths.
               combine_sequences (fst f) (sequences s) = Inr (training_X, training_lengths) \<and>
               GaussianHMM_fit lib n (random_state s) training_X training_lengths = Inr m"
      by (auto simp: fold_outcome_def split: sum.splits prod.splits)
    have "f \<in> set folds" using d(1) by simp
    with cf have out: "\<exists>i<?len. i \<in> set (snd f) \<and> i \<notin> set (fst f)"
      unfolding cv_folds_def by (rule KFold_heldout [OF k])
    have valid: "\<forall>fd\<in>set folds. (\<forall>i\<in>set (fst fd). i < ?len) \<and> (\<forall>i\<in>set (snd fd). i < ?len)"
      using cf unfolding cv_folds_def by (rule KFold_indices_valid [OF k])
    have "fst (cv_fold_loop lib s n folds ([], None))
        = List.map_filter (held_out_sample lib s n) folds"
      using cv_fold_loop_map_filter [OF valid, of lib n "[]" None] by simp
    then have avg: "v = f_mean ar (List.map_filter (held_out_sample lib s n) folds)"
      using h(3) ne1 cf
      by (auto simp: cv_result_def cv_samples_def split: prod.splits if_splits)
    from h(1,2) cf d fit out h(3,5,6) mo avg show ?thesis by blast
  qed
qed

text \<open>
  Claim C7 as stated fails when the fit of the last fold fails: the word has two
  sequences, the last fold evaluated (training on sequence 0) produces no model, and
  the model returned for the winning candidate 2 is the one of the first fold.
\<close>

theorem SelectorCV_last_fold_without_model:
  "2 \<le> length (sequences cv_selector)
   \<and> cv_folds KFold cv_selector = Inr [([1], [0]), ([0], [1])]
   \<and> fold_outcome cv_lib cv_selector 2 ([1], [0])
       = Inr (\<lparr>n_components = 2, n_features = 1, params = [[1], [2]]\<rparr>, Inr (Fin (- 2)))
   \<and> fold_outcome cv_lib cv_selector 2 ([0], [1]) = Inl FitFailure
   \<and> SelectorCV_select KFold ideal_arith cv_lib cv_selector
       = Inr (Some \<lparr>n_components = 2, n_features = 1, params = [[1], [2]]\<rparr>)"
proof -
  have "SelectorCV_select KFold ideal_arith cv_lib cv_selector
       = Inr (Some \<lparr>n_components = 2, n_features = 1, params = [[1], [2]]\<rparr>)"
    by (simp add: SelectorCV_select_def cv_selector_fields(3,4) cv_selector_samples
          ideal_arith_ops)
  moreover have "2 \<le> length (sequences cv_selector)" by (simp add: cv_selector_fields)
  ultimately show ?thesis
    using cv_selector_folds cv_selector_outcomes [of 2] by simp
qed

text \<open>
  The theorem at a word with four sequences where every fit succeeds: the model returned
  was trained on the training part \<open>[0, 1, 2]\<close> of the last fold, three frames, while a
  fit on the full observations would carry all four.
\<close>

theorem SelectorCV_returns_last_fitted_fold_model_witness:
  "2 \<le> length (sequences four_selector)
   \<and> SelectorCV_select KFold ideal_arith cv_lib four_selector
       = Inr (Some \<lparr>n_components = 2, n_features = 1, params = [[1], [2], [3]]\<rparr>)
   \<and> base_model cv_lib four_selector 2
       = Some \<lparr>n_components = 2, n_features = 1, params = [[1], [2], [3], [4]]\<rparr>
   \<and> (\<exists>n f r. fold_outcome cv_lib four_selector n f
                 = Inr (\<lparr>n_components = 2, n_features = 1, params = [[1], [2], [3]]\<rparr>, r))"
proof -
  let ?m = "\<lparr>n_components = 2, n_features = 1, params = [[1 :: real], [2], [3]]\<rparr>"
  have two: "2 \<le> length (sequences four_selector)" by (simp add: four_selector_fields)
  have sel: "SelectorCV_select KFold ideal_arith cv_lib four_selector = Inr (Some ?m)"
    by (simp add: SelectorCV_select_def four_selector_fields(3,4) four_selector_samples
          ideal_arith_ops)
  have "\<exists>n f r. fold_outcome cv_lib four_selector n f = Inr (?m, r)"
    using SelectorCV_returns_last_fitted_fold_model [OF two sel] by blast
  moreover have "base_model cv_lib four_selector 2
       = Some \<lparr>n_components = 2, n_features = 1, params = [[1], [2], [3], [4]]\<rparr>"
    by (simp add: base_model_def four_selector_fields cv_lib_fit)
  ultimately show ?thesis using two sel by simp
qed

section \<open>All strategies: a model in the range\<close>

lemma fit_n_components:
  "GaussianHMM_fit lib n seed X' lens = Inr m \<Longrightarrow> n_components m = n"
  by (auto simp: GaussianHMM_fit_def split: option.splits)

lemma track_upto_found:
  assumes fo: "float_order better" and sv: "sv \<noteq> NaN"
    and ex: "lo \<le> n" "n \<le> hi" "f n = Some (v, m)" "better v sv"
  shows "\<exists>n' v' m'. lo \<le> n' \<and> n' \<le> hi \<and> f n' = Some (v', m') \<and>
           track better (map f [lo..hi]) (sv, sm) = (v', m')"
  using track_upto [OF fo sv, of f lo hi sm] ex by blast

lemma SelectorBIC_select_found:
  assumes rng: "min_n_components s \<le> n" "n \<le> max_n_components s"
    and body: "bic_body ar lib s n = Inr (v, mo)" and lt: "py_lt v PosInf"
  shows "\<exists>m'. SelectorBIC_select ar lib s = Some m' \<and>
           min_n_components s \<le> n_components m' \<and> n_components m' \<le> max_n_components s"
proof -
  let ?f = "\<lambda>n. case bic_body ar lib s n of Inl e \<Rightarrow> None | Inr r \<Rightarrow> Some r"
  from body have fn: "?f n = Some (v, mo)" by simp
  have inf: "PosInf \<noteq> NaN" by simp
  from track_upto_found [where better = py_lt and f = ?f and sv = PosInf and sm = None
                           and n = n and v = v and m = mo,
                         OF float_order_less inf rng fn lt]
  obtain n' v' mo' where h: "min_n_components s \<le> n'" "n' \<le> max_n_components s"
    "?f n' = Some (v', mo')"
    "track py_lt (map ?f [min_n_components s..max_n_components s]) (PosInf, None) = (v', mo')"
    by blast
  from h(3) have "bic_body ar lib s n' = Inr (v', mo')" by (simp split: sum.splits)
  then obtain m' where m': "mo' = Some m'"
    "GaussianHMM_fit lib n' (random_state s) (X_obs s) (lengths s) = Inr m'"
    unfolding bic_body_Inr_iff by blast
  have "SelectorBIC_select ar lib s = Some m'"
    using h(4) m'(1) by (simp add: SelectorBIC_select_def bic_loop_track)
  with fit_n_components [OF m'(2)] h(1,2) show ?thesis by simp
qed

lemma SelectorDIC_select_found:
  assumes d: "distinct (map fst (hwords s))"
    and rng: "min_n_components s \<le> n" "n \<le> max_n_components s"
    and body: "dic_body ar lib s n = Inr (v, mo)" and lt: "py_lt NegInf v"
  shows "\<exists>m'. SelectorDIC_select ar lib s = Some m' \<and>
           min_n_components s \<le> n_components m' \<and> n_components m' \<le> max_n_components s"
proof -
  let ?f = "\<lambda>n. case dic_body ar lib s n of Inl e \<Rightarrow> None | Inr r \<Rightarrow> Some r"
  from body have fn: "?f n = Some (v, mo)" by simp
  have ninf: "NegInf \<noteq> NaN" by simp
  from track_upto_found [where better = "\<lambda>a b. py_lt b a" and f = ?f and sv = NegInf
                           and sm = None and n = n and v = v and m = mo,
                         OF float_order_greater ninf rng fn lt]
  obtain n' v' mo' where h: "min_n_components s \<le> n'" "n' \<le> max_n_components s"
    "?f n' = Some (v', mo')"
    "track (\<lambda>a b. py_lt b a) (map ?f [min_n_components s..max_n_components s]) (NegInf, None)
       = (v', mo')"
    by blast
  from h(3) have "dic_body ar lib s n' = Inr (v', mo')" by (simp split: sum.splits)
  then obtain m' where m': "mo' = Some m'"
    "GaussianHMM_fit lib n' (random_state s) (X_obs s) (lengths s) = Inr m'"
    unfolding dic_body_Inr_iff [OF d] by blast
  have "SelectorDIC_select ar lib s = Some m'"
    using h(4) m'(1) by (simp add: SelectorDIC_select_def dic_loop_track)
  with fit_n_components [OF m'(2)] h(1,2) show ?thesis by simp
qed

lemma SelectorCV_select_found:
  assumes ok: "length (sequences s) = 1 \<or> (\<exists>folds. cv_folds sm s = Inr folds)"
    and rng: "min_n_components s \<le> n" "n \<le> max_n_components s"
    and res: "cv_result sm ar lib s n = Some (v, mo)" and lt: "py_lt NegInf v"
  shows "\<exists>m'. SelectorCV_select sm ar lib s = Inr (Some m') \<and>
           min_n_components s \<le> n_components m' \<and> n_components m' \<le> max_n_components s"
proof -
  have ninf: "NegInf \<noteq> NaN" by simp
  from track_upto_found [where better = "\<lambda>a b. py_lt b a" and f = "cv_result sm ar lib s"
                           and sv = NegInf and sm = None and n = n and v = v and m = mo,
                         OF float_order_greater ninf rng res lt]
  obtain n' v' mo' where h: "min_n_components s \<le> n'" "n' \<le> max_n_components s"
    "cv_result sm ar lib s n' = Some (v', mo')"
    "track (\<lambda>a b. py_lt b a)
       (map (cv_result sm ar lib s) [min_n_components s..max_n_components s])
       (NegInf, None) = (v', mo')"
    by blast
  have sel: "SelectorCV_select sm ar lib s = Inr mo'"
    using SelectorCV_select_track [OF ok, of ar lib] h(4) by simp
  have "\<exists>m'. mo' = Some m' \<and> n_components m' = n'"
  proof (cases "length (sequences s) = 1")
    case True
    from h(3) cv_result_single [OF True, of sm ar lib n' v' mo'] show ?thesis
      by (auto dest: fit_n_components)
  next
    case False
    with ok obtain folds where cf: "cv_folds sm s = Inr folds" by blast
    from cv_result_folds [OF False cf h(3)] obtain f m' r where
      "fold_outcome lib s n' f = Inr (m', r)" "mo' = Some m'" by blast
    then show ?thesis
      by (auto simp: fold_outcome_def split: sum.splits prod.splits dest: fit_n_components)
  qed
  with sel h(1,2) show ?thesis by auto
qed

lemma cv_result_KFold:
  assumes two: "2 \<le> length (sequences s)" and cf: "cv_folds KFold s = Inr folds"
    and ne: "List.map_filter (held_out_sample lib s n) folds \<noteq> []"
  shows "\<exists>mo. cv_result KFold ar lib s n
           = Some (f_mean ar (List.map_filter (held_out_sample lib s n) folds), mo)"
proof -
  let ?len = "length (sequences s)"
  have k: "2 \<le> min ?len 3" "min ?len 3 \<le> ?len" using two by simp_all
  have ne1: "?len \<noteq> 1" using two by simp
  have valid: "\<forall>fd\<in>set folds. (\<forall>i\<in>set (fst fd). i < ?len) \<and> (\<forall>i\<in>set (snd fd). i < ?len)"
    using cf unfolding cv_folds_def by (rule KFold_indices_valid [OF k])
  have "fst (cv_fold_loop lib s n folds ([], None))
      = List.map_filter (held_out_sample lib s n) folds"
    using cv_fold_loop_map_filter [OF valid, of lib n "[]" None] by simp
  then show ?thesis using ne ne1 cf
    by (cases "cv_fold_loop lib s n folds ([], None)")
       (auto simp: cv_result_def cv_samples_def)
qed

text \<open>
  Claim C8, amended. If at least one candidate of the inclusive range fits and scores
  successfully and is evaluated to a criterion value that beats the initial value of the
  running best, then \<open>select\<close> returns a model whose state count lies in the range.
  For BIC: the word has at least one frame, \<open>p\<close> converts to a float, and the
  candidate's BIC is below positive infinity. For DIC: the vocabulary (distinct keys,
  holding the word) has at least two words, the candidate also scores every other word,
  and its DIC is above negative infinity. For CrossValidation on a word with one
  sequence: the mean of the one sample is above negative infinity. For CrossValidation
  on a word with two or more sequences: the list of the candidate's fold samples (one
  for each fold whose training part fits and whose held-out part scores) is not empty and
  its mean is above negative infinity. Constant returns the model with \<open>n_constant\<close>
  states whenever that fit succeeds, whether or not \<open>n_constant\<close> lies in the range.
\<close>

theorem select_returns_model_in_range:
  fixes ar :: float_arith and lib :: "'p hmmlearn" and s :: selector
  defines "own \<equiv> \<lambda>n m logL.
     min_n_components s \<le> n \<and> n \<le> max_n_components s \<and>
     GaussianHMM_fit lib n (random_state s) (X_obs s) (lengths s) = Inr m \<and>
     score_impl lib m (X_obs s) (lengths s) = Some logL"
  defines "in_range \<equiv> \<lambda>m. min_n_components s \<le> n_components m \<and>
     n_components m \<le> max_n_components s"
  shows "(0 < sum_list (lengths s) \<and>
          (\<exists>n m logL p. own n m logL \<and>
              f_of_int ar (n ^ 2 + 2 * n * n_features m - 1) = Some p \<and>
              py_lt (f_add ar (f_mul ar (Fin (- 2)) logL)
                       (f_mul ar p (f_log ar (sum_list (lengths s))))) PosInf)
            \<longrightarrow> (\<exists>m. select BIC split_method ar lib s = Inr (Some m) \<and> in_range m))
       \<and> (distinct (map fst (hwords s)) \<and> this_word s \<in> fst ` set (hwords s) \<and>
          2 \<le> length (hwords s) \<and>
          (\<exists>n m logL anti. own n m logL \<and>
              map (\<lambda>(X', len). score_impl lib m X' len)
                (map snd (filter (\<lambda>kv. fst kv \<noteq> this_word s) (hwords s))) = map Some anti \<and>
              py_lt NegInf
                (f_sub ar logL (f_div_count ar (f_sum ar anti) (length (hwords s) - 1))))
            \<longrightarrow> (\<exists>m. select DIC split_method ar lib s = Inr (Some m) \<and> in_range m))
       \<and> (length (sequences s) = 1 \<and>
          (\<exists>n m logL. own n m logL \<and> py_lt NegInf (f_mean ar [logL]))
            \<longrightarrow> (\<exists>m. select CrossValidation split_method ar lib s = Inr (Some m) \<and>
                     in_range m))
       \<and> (2 \<le> length (sequences s) \<and>
          (\<exists>n folds. min_n_components s \<le> n \<and> n \<le> max_n_components s \<and>
              cv_folds KFold s = Inr folds \<and>
              List.map_filter (held_out_sample lib s n) folds \<noteq> [] \<and>
              py_lt NegInf (f_mean ar (List.map_filter (held_out_sample lib s n) folds)))
            \<longrightarrow> (\<exists>m. select CrossValidation KFold ar lib s = Inr (Some m) \<and> in_range m))
       \<and> ((\<exists>m. GaussianHMM_fit lib (n_constant s) (random_state s) (X_obs s) (lengths s) = Inr m)
            \<longrightarrow> (\<exists>m. select Constant split_method ar lib s = Inr (Some m) \<and>
                     n_components m = n_constant s))"
proof (intro conjI impI)
  assume a: "0 < sum_list (lengths s) \<and>
          (\<exists>n m logL p. own n m logL \<and>
              f_of_int ar (n ^ 2 + 2 * n * n_features m - 1) = Some p \<and>
              py_lt (f_add ar (f_mul ar (Fin (- 2)) logL)
                       (f_mul ar p (f_log ar (sum_list (lengths s))))) PosInf)"
  then obtain n m logL p where o: "own n m logL"
    and p: "f_of_int ar (n ^ 2 + 2 * n * n_features m - 1) = Some p"
    and lt: "py_lt (f_add ar (f_mul ar (Fin (- 2)) logL)
                       (f_mul ar p (f_log ar (sum_list (lengths s))))) PosInf"
    by blast
  have "bic_body ar lib s n
      = Inr (f_add ar (f_mul ar (Fin (- 2)) logL)
               (f_mul ar p (f_log ar (sum_list (lengths s)))), Some m)"
    unfolding bic_body_Inr_iff using a o p unfolding own_def by blast
  from SelectorBIC_select_found [OF _ _ this lt] o
  show "\<exists>m. select BIC split_method ar lib s = Inr (Some m) \<and> in_range m"
    unfolding own_def in_range_def by simp
next
  assume a: "distinct (map fst (hwords s)) \<and> this_word s \<in> fst ` set (hwords s) \<and>
          2 \<le> length (hwords s) \<and>
          (\<exists>n m logL anti. own n m logL \<and>
              map (\<lambda>(X', len). score_impl lib m X' len)
                (map snd (filter (\<lambda>kv. fst kv \<noteq> this_word s) (hwords s))) = map Some anti \<and>
              py_lt NegInf
                (f_sub ar logL (f_div_count ar (f_sum ar anti) (length (hwords s) - 1))))"
  then have d: "distinct (map fst (hwords s))" and mem: "this_word s \<in> fst ` set (hwords s)"
    and two: "2 \<le> length (hwords s)" by blast+
  from a obtain n m logL anti where o: "own n m logL"
    and oth: "map (\<lambda>(X', len). score_impl lib m X' len)
                (map snd (filter (\<lambda>kv. fst kv \<noteq> this_word s) (hwords s))) = map Some anti"
    and lt: "py_lt NegInf
                (f_sub ar logL (f_div_count ar (f_sum ar anti) (length (hwords s) - 1)))"
    by blast
  have len: "length (filter (\<lambda>kv. fst kv \<noteq> this_word s) (hwords s)) = length (hwords s) - 1"
    by (rule length_others [OF d mem])
  then have ne: "filter (\<lambda>kv. fst kv \<noteq> this_word s) (hwords s) \<noteq> []" using two by auto
  have "dic_body ar lib s n
      = Inr (f_sub ar logL (f_div_count ar (f_sum ar anti) (length (hwords s) - 1)), Some m)"
    unfolding dic_body_Inr_iff [OF d] len using o oth ne unfolding own_def by blast
  from SelectorDIC_select_found [OF d _ _ this lt] o
  show "\<exists>m. select DIC split_method ar lib s = Inr (Some m) \<and> in_range m"
    unfolding own_def in_range_def by simp
next
  assume a: "length (sequences s) = 1 \<and>
          (\<exists>n m logL. own n m logL \<and> py_lt NegInf (f_mean ar [logL]))"
  then obtain n m logL where o: "own n m logL" and lt: "py_lt NegInf (f_mean ar [logL])"
    by blast
  have one: "length (sequences s) = 1" using a by blast
  have "cv_result split_method ar lib s n = Some (f_mean ar [logL], Some m)"
    unfolding cv_result_single [OF one] using o unfolding own_def by blast
  from SelectorCV_select_found [OF _ _ _ this lt] o one
  show "\<exists>m. select CrossValidation split_method ar lib s = Inr (Some m) \<and> in_range m"
    unfolding own_def in_range_def by simp
next
  assume a: "2 \<le> length (sequences s) \<and>
          (\<exists>n folds. min_n_components s \<le> n \<and> n \<le> max_n_components s \<and>
              cv_folds KFold s = Inr folds \<and>
              List.map_filter (held_out_sample lib s n) folds \<noteq> [] \<and>
              py_lt NegInf (f_mean ar (List.map_filter (held_out_sample lib s n) folds)))"
  then obtain n folds where h: "min_n_components s \<le> n" "n \<le> max_n_components s"
    "cv_folds KFold s = Inr folds" "List.map_filter (held_out_sample lib s n) folds \<noteq> []"
    "py_lt NegInf (f_mean ar (List.map_filter (held_out_sample lib s n) folds))"
    by blast
  have two: "2 \<le> length (sequences s)" using a by blast
  from cv_result_KFold [OF two h(3,4), of ar] obtain mo where
    r: "cv_result KFold ar lib s n
          = Some (f_mean ar (List.map_filter (held_out_sample lib s n) folds), mo)" by blast
  have ok: "length (sequences s) = 1 \<or> (\<exists>folds. cv_folds KFold s = Inr folds)"
    using h(3) by blast
  from SelectorCV_select_found [OF ok h(1,2) r h(5)]
  show "\<exists>m. select CrossValidation KFold ar lib s = Inr (Some m) \<and> in_range m"
    unfolding in_range_def by simp
next
  assume "\<exists>m. GaussianHMM_fit lib (n_constant s) (random_state s) (X_obs s) (lengths s) = Inr m"
  then obtain m where
    m: "GaussianHMM_fit lib (n_constant s) (random_state s) (X_obs s) (lengths s) = Inr m"
    by blast
  then have "select Constant split_method ar lib s = Inr (Some m)"
    by (simp add: SelectorConstant_select_def base_model_def)
  with fit_n_components [OF m]
  show "\<exists>m. select Constant split_method ar lib s = Inr (Some m) \<and> n_components m = n_constant s"
    by simp
qed

lemma cv_selector_obs:
  "X_obs cv_selector = [[9], [1], [2]]" "lengths cv_selector = [1, 2]"
  by (simp_all add: cv_selector_def)

lemma cv_result_vocab2:
  "cv_result sm ar lib vocab2_selector n
     = (case GaussianHMM_fit lib n 14 [[0]] [1] of
          Inl e \<Rightarrow> None
        | Inr m \<Rightarrow> (case score_impl lib m [[0]] [1] of
                     None \<Rightarrow> None | Some logL \<Rightarrow> Some (f_mean ar [logL], Some m)))"
proof -
  have one: "length (sequences vocab2_selector) = 1" by (simp add: vocab2_selector_fields)
  show ?thesis
    by (simp add: cv_result_def cv_samples_single [OF one] base_model_def model_score_def
          vocab2_selector_fields split: sum.splits option.splits)
qed

text \<open>
  Claim C8 as stated fails for every strategy. In each case below a candidate of the range
  fits and scores successfully. Constant returns a model with \<open>n_constant = 15\<close>
  states, outside the range 2 to 4. DIC returns none when no candidate can score the
  other word. BIC, DIC and CrossValidation return none when scoring returns negative
  infinity without raising, since the criterion then never beats the initial value. BIC
  returns none when the word has no frame (\<open>math.log(0)\<close> raises) and when \<open>p\<close> is
  too large to convert to a float. CrossValidation on two sequences returns none when the
  fit succeeds on the full observations but on no training part, and when the full
  observations score finitely but every held-out part scores negative infinity.
\<close>

theorem select_outside_range_or_absent:
  "min_n_components vocab2_selector \<le> 2 \<and> 2 \<le> max_n_components vocab2_selector
   \<and> GaussianHMM_fit rec_lib 2 (random_state vocab2_selector) (X_obs vocab2_selector)
        (lengths vocab2_selector) = Inr model_A
   \<and> score_impl rec_lib model_A (X_obs vocab2_selector) (lengths vocab2_selector)
        = Some (Fin (- 2))
   \<and> select Constant KFold ideal_arith rec_lib vocab2_selector
        = Inr (Some \<lparr>n_components = 15, n_features = 1, params = ()\<rparr>)
   \<and> max_n_components vocab2_selector < 15
   \<and> select DIC KFold ideal_arith rec_lib vocab2_selector = Inr None
   \<and> GaussianHMM_fit neginf_lib 2 (random_state vocab2_selector) (X_obs vocab2_selector)
        (lengths vocab2_selector) = Inr model_A
   \<and> score_impl neginf_lib model_A (X_obs vocab2_selector) (lengths vocab2_selector)
        = Some NegInf
   \<and> select BIC KFold ideal_arith neginf_lib vocab2_selector = Inr None
   \<and> select DIC KFold ideal_arith neginf_lib vocab2_selector = Inr None
   \<and> length (sequences vocab2_selector) = 1
   \<and> select CrossValidation KFold ideal_arith neginf_lib vocab2_selector = Inr None
   \<and> min_n_components empty_selector \<le> 2 \<and> 2 \<le> max_n_components empty_selector
   \<and> GaussianHMM_fit frames_lib 2 (random_state empty_selector) (X_obs empty_selector)
        (lengths empty_selector) = Inr model_A
   \<and> score_impl frames_lib model_A (X_obs empty_selector) (lengths empty_selector)
        = Some (Fin 0)
   \<and> sum_list (lengths empty_selector) = 0
   \<and> select BIC KFold ideal_arith frames_lib empty_selector = Inr None
   \<and> min_n_components huge_selector = 2 ^ 512 \<and> max_n_components huge_selector = 2 ^ 512
   \<and> GaussianHMM_fit frames_lib (2 ^ 512) (random_state huge_selector) (X_obs huge_selector)
        (lengths huge_selector) = Inr \<lparr>n_components = 2 ^ 512, n_features = 1, params = ()\<rparr>
   \<and> score_impl frames_lib \<lparr>n_components = 2 ^ 512, n_features = 1, params = ()\<rparr>
        (X_obs huge_selector) (lengths huge_selector) = Some (Fin (2 ^ 512))
   \<and> 0 < sum_list (lengths huge_selector)
   \<and> select BIC KFold ideal_arith frames_lib huge_selector = Inr None
   \<and> 2 \<le> length (sequences cv_selector)
   \<and> min_n_components cv_selector \<le> 2 \<and> 2 \<le> max_n_components cv_selector
   \<and> GaussianHMM_fit full_only_lib 2 (random_state cv_selector) (X_obs cv_selector)
        (lengths cv_selector) = Inr \<lparr>n_components = 2, n_features = 1, params = [[9], [1], [2]]\<rparr>
   \<and> score_impl full_only_lib \<lparr>n_components = 2, n_features = 1, params = [[9], [1], [2]]\<rparr>
        (X_obs cv_selector) (lengths cv_selector) = Some (Fin 0)
   \<and> select CrossValidation KFold ideal_arith full_only_lib cv_selector = Inr None
   \<and> 2 \<le> length (sequences twin_selector)
   \<and> min_n_components twin_selector \<le> 2 \<and> 2 \<le> max_n_components twin_selector
   \<and> GaussianHMM_fit neginf_lib 2 (random_state twin_selector) (X_obs twin_selector)
        (lengths twin_selector) = Inr model_A
   \<and> score_impl neginf_lib model_A (X_obs twin_selector) (lengths twin_selector)
        = Some (Fin (- 1))
   \<and> cv_folds KFold twin_selector = Inr [([1], [0]), ([0], [1])]
   \<and> List.map_filter (held_out_sample neginf_lib twin_selector 2) [([1], [0]), ([0], [1])]
        = [NegInf, NegInf]
   \<and> select CrossValidation KFold ideal_arith neginf_lib twin_selector = Inr None"
proof -
  note v = vocab2_selector_fields
  have sc: "score_impl rec_lib m [[0]] lens = Some (Fin (- real_of_int (n_components m)))"
    "score_impl rec_lib m [[2]] lens = None" for m lens
    by (simp_all add: rec_lib_def)
  have a1: "min_n_components vocab2_selector \<le> 2 \<and> 2 \<le> max_n_components vocab2_selector
     \<and> GaussianHMM_fit rec_lib 2 (random_state vocab2_selector) (X_obs vocab2_selector)
        (lengths vocab2_selector) = Inr model_A
     \<and> score_impl rec_lib model_A (X_obs vocab2_selector) (lengths vocab2_selector)
        = Some (Fin (- 2))
     \<and> max_n_components vocab2_selector < 15"
    by (simp add: v rec_lib_fit sc model_A_def)
  have a2: "select Constant KFold ideal_arith rec_lib vocab2_selector
        = Inr (Some \<lparr>n_components = 15, n_features = 1, params = ()\<rparr>)"
    by (simp add: SelectorConstant_select_def base_model_def v rec_lib_fit)
  have body: "\<exists>e. dic_body ideal_arith rec_lib vocab2_selector n = Inl e" for n
    by (simp add: dic_body_def base_model_def model_score_def other_words_def dict_get_def
          v rec_lib_fit sc)
  have a3: "select DIC KFold ideal_arith rec_lib vocab2_selector = Inr None"
    unfolding select.simps SelectorDIC_select_def
    using dic_loop_all_fail [of _ ideal_arith rec_lib vocab2_selector "(NegInf, None)"] body
    by simp
  have b1: "GaussianHMM_fit neginf_lib 2 (random_state vocab2_selector) (X_obs vocab2_selector)
        (lengths vocab2_selector) = Inr model_A
     \<and> score_impl neginf_lib model_A (X_obs vocab2_selector) (lengths vocab2_selector)
        = Some NegInf
     \<and> length (sequences vocab2_selector) = 1"
    by (simp add: v neginf_lib_fit neginf_lib_score model_A_def)
  have bb: "bic_body ideal_arith neginf_lib vocab2_selector n
      = Inr (PosInf, Some \<lparr>n_components = n, n_features = 1, params = ()\<rparr>)"
    if "n = 2 \<or> n = 3 \<or> n = 4" for n
    using that
    by (auto simp: bic_body_def base_model_def model_score_def math_log_def int_times_float_def
          v neginf_lib_fit neginf_lib_score ideal_arith_ops)
  have b2: "select BIC KFold ideal_arith neginf_lib vocab2_selector = Inr None"
    by (simp add: SelectorBIC_select_def v bb)
  have db: "dic_body ideal_arith neginf_lib vocab2_selector n
      = Inr (NegInf, Some \<lparr>n_components = n, n_features = 1, params = ()\<rparr>)" for n
    by (simp add: dic_body_def base_model_def model_score_def other_words_def dict_get_def
          sum_over_count_def v neginf_lib_fit neginf_lib_score ideal_arith_ops)
  have b3: "select DIC KFold ideal_arith neginf_lib vocab2_selector = Inr None"
    by (simp add: SelectorDIC_select_def v db)
  have one: "length (sequences vocab2_selector) = 1" by (simp add: v)
  have cr: "cv_result KFold ideal_arith neginf_lib vocab2_selector n
      = Some (NegInf, Some \<lparr>n_components = n, n_features = 1, params = ()\<rparr>)" for n
    by (simp add: cv_result_vocab2 neginf_lib_fit neginf_lib_score ideal_arith_ops)
  have b4: "select CrossValidation KFold ideal_arith neginf_lib vocab2_selector = Inr None"
    using one by (simp add: SelectorCV_select_track v cr del: One_nat_def)
  have c1: "min_n_components empty_selector \<le> 2 \<and> 2 \<le> max_n_components empty_selector
     \<and> GaussianHMM_fit frames_lib 2 (random_state empty_selector) (X_obs empty_selector)
        (lengths empty_selector) = Inr model_A
     \<and> score_impl frames_lib model_A (X_obs empty_selector) (lengths empty_selector)
        = Some (Fin 0)
     \<and> sum_list (lengths empty_selector) = 0"
    by (simp add: empty_selector_fields frames_lib_fit frames_lib_score model_A_def)
  have e: "bic_body ideal_arith frames_lib empty_selector n = Inl ValueError" for n
    by (simp add: bic_body_def base_model_def model_score_def math_log_def
          empty_selector_fields frames_lib_fit frames_lib_score)
  have c2: "select BIC KFold ideal_arith frames_lib empty_selector = Inr None"
    unfolding select.simps SelectorBIC_select_def
    using bic_loop_all_fail [of _ ideal_arith frames_lib empty_selector "(PosInf, None)"] e
    by simp
  have hsc: "score_impl frames_lib \<lparr>n_components = 2 ^ 512, n_features = 1, params = ()\<rparr>
       (X_obs huge_selector) (lengths huge_selector) = Some (Fin (2 ^ 512))"
    by (simp add: huge_selector_fields frames_lib_score del: power_numeral)
  have hsc': "score_impl frames_lib \<lparr>n_components = 2 ^ 512, n_features = 1, params = ()\<rparr>
       [[0]] [1] = Some (Fin (2 ^ 512))"
    using hsc by (simp only: huge_selector_fields)
  have h: "bic_body ideal_arith frames_lib huge_selector (2 ^ 512) = Inl OverflowError"
    unfolding bic_body_def base_model_def model_score_def math_log_def int_times_float_def
      Let_def huge_selector_fields frames_lib_fit
    by (simp only: hsc' sum.case option.case hmm.select_convs huge_int_fails sum_list.Cons
          sum_list.Nil add_0_right one_neq_zero if_False)
  have d1: "min_n_components huge_selector = 2 ^ 512 \<and> max_n_components huge_selector = 2 ^ 512
     \<and> GaussianHMM_fit frames_lib (2 ^ 512) (random_state huge_selector) (X_obs huge_selector)
        (lengths huge_selector) = Inr \<lparr>n_components = 2 ^ 512, n_features = 1, params = ()\<rparr>
     \<and> 0 < sum_list (lengths huge_selector)"
    by (simp add: huge_selector_fields frames_lib_fit del: power_numeral)
  have d2: "select BIC KFold ideal_arith frames_lib huge_selector = Inr None"
    unfolding select.simps SelectorBIC_select_def
    using bic_loop_all_fail [of "[2 ^ 512..2 ^ 512]" ideal_arith frames_lib huge_selector
        "(PosInf, None)"] h
    by (simp add: huge_selector_fields del: power_numeral)
  have f1: "2 \<le> length (sequences cv_selector)
     \<and> min_n_components cv_selector \<le> 2 \<and> 2 \<le> max_n_components cv_selector
     \<and> GaussianHMM_fit full_only_lib 2 (random_state cv_selector) (X_obs cv_selector)
        (lengths cv_selector) = Inr \<lparr>n_components = 2, n_features = 1, params = [[9], [1], [2]]\<rparr>
     \<and> score_impl full_only_lib \<lparr>n_components = 2, n_features = 1, params = [[9], [1], [2]]\<rparr>
        (X_obs cv_selector) (lengths cv_selector) = Some (Fin 0)"
    by (simp add: cv_selector_fields cv_selector_obs full_only_lib_fit full_only_lib_score)
  have fo: "fold_outcome full_only_lib cv_selector n ([1], [0]) = Inl FitFailure"
    "fold_outcome full_only_lib cv_selector n ([0], [1]) = Inl FitFailure" for n
    by (simp_all add: fold_outcome_def combine_sequences_def list_get_def cv_selector_fields
          full_only_lib_fit)
  have ne1: "length (sequences cv_selector) \<noteq> 1" by (simp add: cv_selector_fields)
  have fs: "cv_samples KFold full_only_lib cv_selector n model0 = Inr ([], model0)"
    for n model0
    using ne1
    by (simp add: cv_samples_def cv_selector_folds cv_fold_loop_Cons fo del: One_nat_def)
  have f2: "select CrossValidation KFold ideal_arith full_only_lib cv_selector = Inr None"
    by (simp add: SelectorCV_select_def cv_selector_fields(3,4) fs)
  have tf: "cv_folds KFold twin_selector = Inr [([1], [0]), ([0], [1])]"
    by (simp add: cv_folds_def twin_selector_fields KFold_def fold_sizes_def upt_rec)
  have g1: "2 \<le> length (sequences twin_selector)
     \<and> min_n_components twin_selector \<le> 2 \<and> 2 \<le> max_n_components twin_selector
     \<and> GaussianHMM_fit neginf_lib 2 (random_state twin_selector) (X_obs twin_selector)
        (lengths twin_selector) = Inr model_A
     \<and> score_impl neginf_lib model_A (X_obs twin_selector) (lengths twin_selector)
        = Some (Fin (- 1))"
    by (simp add: twin_selector_fields neginf_lib_fit neginf_lib_score model_A_def)
  have hs: "held_out_sample neginf_lib twin_selector n ([1], [0]) = Some NegInf"
    "held_out_sample neginf_lib twin_selector n ([0], [1]) = Some NegInf" for n
    by (simp_all add: held_out_sample_def twin_selector_fields neginf_lib_fit neginf_lib_score)
  have g2: "List.map_filter (held_out_sample neginf_lib twin_selector 2)
       [([1], [0]), ([0], [1])] = [NegInf, NegInf]"
    by (simp add: List.map_filter_simps hs del: One_nat_def)
  have to: "fold_outcome neginf_lib twin_selector n ([1], [0])
       = Inr (\<lparr>n_components = n, n_features = 1, params = ()\<rparr>, Inr NegInf)"
    "fold_outcome neginf_lib twin_selector n ([0], [1])
       = Inr (\<lparr>n_components = n, n_features = 1, params = ()\<rparr>, Inr NegInf)" for n
    by (simp_all add: fold_outcome_def combine_sequences_def list_get_def twin_selector_fields
          neginf_lib_fit neginf_lib_score model_score_def)
  have ne2: "length (sequences twin_selector) \<noteq> 1" by (simp add: twin_selector_fields)
  have ts: "cv_samples KFold neginf_lib twin_selector n model0
      = Inr ([NegInf, NegInf], Some \<lparr>n_components = n, n_features = 1, params = ()\<rparr>)"
    for n model0
    using ne2
    by (simp add: cv_samples_def tf cv_fold_loop_Cons to del: One_nat_def)
  have g3: "select CrossValidation KFold ideal_arith neginf_lib twin_selector = Inr None"
    by (simp add: SelectorCV_select_def twin_selector_fields(1,2) ts ideal_arith_ops)
  from a1 a2 a3 b1 b2 b3 b4 c1 c2 d1 hsc d2 f1 f2 g1 tf g2 g3
  show ?thesis by (simp only: simp_thms)
qed

text \<open>
  The theorem at concrete words: BIC, DIC and CrossValidation (on one sequence and on
  four) return a model with 2 to 4 states, Constant the model with 15 states.
\<close>

theorem select_returns_model_in_range_witness:
  "(\<exists>m. select BIC KFold ideal_arith demo_lib demo_selector = Inr (Some m) \<and>
        min_n_components demo_selector \<le> n_components m \<and>
        n_components m \<le> max_n_components demo_selector)
   \<and> (\<exists>m. select DIC KFold ideal_arith frames_lib vocab3_selector = Inr (Some m) \<and>
        min_n_components vocab3_selector \<le> n_components m \<and>
        n_components m \<le> max_n_components vocab3_selector)
   \<and> (\<exists>m. select CrossValidation KFold ideal_arith cv_lib single_selector = Inr (Some m) \<and>
        min_n_components single_selector \<le> n_components m \<and>
        n_components m \<le> max_n_components single_selector)
   \<and> (\<exists>m. select CrossValidation KFold ideal_arith cv_lib four_selector = Inr (Some m) \<and>
        min_n_components four_selector \<le> n_components m \<and>
        n_components m \<le> max_n_components four_selector)
   \<and> (\<exists>m. select Constant KFold ideal_arith rec_lib vocab2_selector = Inr (Some m) \<and>
        n_components m = 15)"
proof -
  let ?m = "\<lambda>n. \<lparr>n_components = n, n_features = 1, params = ()\<rparr>"
  have bic_h: "0 < sum_list (lengths demo_selector) \<and>
     (\<exists>n m logL p. (min_n_components demo_selector \<le> n \<and> n \<le> max_n_components demo_selector \<and>
         GaussianHMM_fit demo_lib n (random_state demo_selector) (X_obs demo_selector)
           (lengths demo_selector) = Inr m \<and>
         score_impl demo_lib m (X_obs demo_selector) (lengths demo_selector) = Some logL) \<and>
         f_of_int ideal_arith (n ^ 2 + 2 * n * n_features m - 1) = Some p \<and>
         py_lt (f_add ideal_arith (f_mul ideal_arith (Fin (- 2)) logL)
                  (f_mul ideal_arith p (f_log ideal_arith (sum_list (lengths demo_selector)))))
           PosInf)"
    by (rule conjI, simp add: demo_selector_fields,
        rule exI [of _ 2], rule exI [of _ "?m 2"], rule exI [of _ "Fin (- 10)"],
        rule exI [of _ "Fin 7"])
       (simp add: demo_selector_fields demo_lib_fit demo_lib_score ideal_arith_ops)
  have bic: "\<exists>m. select BIC KFold ideal_arith demo_lib demo_selector = Inr (Some m) \<and>
        min_n_components demo_selector \<le> n_components m \<and>
        n_components m \<le> max_n_components demo_selector"
    using select_returns_model_in_range
      [where ar = ideal_arith and lib = demo_lib and s = demo_selector and split_method = KFold,
       THEN conjunct1] bic_h by blast
  have dic_h: "distinct (map fst (hwords vocab3_selector)) \<and>
     this_word vocab3_selector \<in> fst ` set (hwords vocab3_selector) \<and>
     2 \<le> length (hwords vocab3_selector) \<and>
     (\<exists>n m logL anti.
         (min_n_components vocab3_selector \<le> n \<and> n \<le> max_n_components vocab3_selector \<and>
          GaussianHMM_fit frames_lib n (random_state vocab3_selector) (X_obs vocab3_selector)
            (lengths vocab3_selector) = Inr m \<and>
          score_impl frames_lib m (X_obs vocab3_selector) (lengths vocab3_selector) = Some logL) \<and>
         map (\<lambda>(X', len). score_impl frames_lib m X' len)
           (map snd (filter (\<lambda>kv. fst kv \<noteq> this_word vocab3_selector)
              (hwords vocab3_selector))) = map Some anti \<and>
         py_lt NegInf
           (f_sub ideal_arith logL (f_div_count ideal_arith (f_sum ideal_arith anti)
              (length (hwords vocab3_selector) - 1))))"
    by (intro conjI, simp add: vocab3_selector_fields, simp add: vocab3_selector_fields,
        simp add: vocab3_selector_fields,
        rule exI [of _ 2], rule exI [of _ "?m 2"], rule exI [of _ "Fin 6"],
        rule exI [of _ "[Fin 2, Fin 4]"])
       (simp add: vocab3_selector_fields frames_lib_fit frames_lib_score ideal_arith_ops)
  have dic: "\<exists>m. select DIC KFold ideal_arith frames_lib vocab3_selector = Inr (Some m) \<and>
        min_n_components vocab3_selector \<le> n_components m \<and>
        n_components m \<le> max_n_components vocab3_selector"
    using select_returns_model_in_range
      [where ar = ideal_arith and lib = frames_lib and s = vocab3_selector
         and split_method = KFold,
       THEN conjunct2, THEN conjunct1] dic_h by blast
  have cv1_h: "length (sequences single_selector) = 1 \<and>
     (\<exists>n m logL.
         (min_n_components single_selector \<le> n \<and> n \<le> max_n_components single_selector \<and>
          GaussianHMM_fit cv_lib n (random_state single_selector) (X_obs single_selector)
            (lengths single_selector) = Inr m \<and>
          score_impl cv_lib m (X_obs single_selector) (lengths single_selector) = Some logL) \<and>
         py_lt NegInf (f_mean ideal_arith [logL]))"
    by (rule conjI, simp add: single_selector_fields,
        rule exI [of _ 2],
        rule exI [of _ "\<lparr>n_components = 2, n_features = 1, params = [[1], [2]]\<rparr>"],
        rule exI [of _ "Fin (- 4)"])
       (simp add: single_selector_fields cv_lib_fit cv_lib_score ideal_arith_ops)
  have cv1: "\<exists>m. select CrossValidation KFold ideal_arith cv_lib single_selector = Inr (Some m) \<and>
        min_n_components single_selector \<le> n_components m \<and>
        n_components m \<le> max_n_components single_selector"
    using select_returns_model_in_range
      [where ar = ideal_arith and lib = cv_lib and s = single_selector
         and split_method = KFold,
       THEN conjunct2, THEN conjunct2, THEN conjunct1] cv1_h by blast
  have hs: "held_out_sample cv_lib four_selector 2 ([2, 3], [0, 1]) = Some (Fin (- 4))"
    "held_out_sample cv_lib four_selector 2 ([0, 1, 3], [2]) = Some (Fin (- 2))"
    "held_out_sample cv_lib four_selector 2 ([0, 1, 2], [3]) = Some (Fin (- 2))"
    by (simp_all add: held_out_sample_def four_selector_fields cv_lib_fit cv_lib_score)
  have mf: "List.map_filter (held_out_sample cv_lib four_selector 2)
       [([2, 3], [0, 1]), ([0, 1, 3], [2]), ([0, 1, 2], [3])]
     = [Fin (- 4), Fin (- 2), Fin (- 2)]"
    by (simp add: List.map_filter_simps hs del: One_nat_def)
  have cv2_h: "2 \<le> length (sequences four_selector) \<and>
     (\<exists>n folds. min_n_components four_selector \<le> n \<and> n \<le> max_n_components four_selector \<and>
         cv_folds KFold four_selector = Inr folds \<and>
         List.map_filter (held_out_sample cv_lib four_selector n) folds \<noteq> [] \<and>
         py_lt NegInf (f_mean ideal_arith
           (List.map_filter (held_out_sample cv_lib four_selector n) folds)))"
  proof -
    let ?folds = "[([2, 3], [0, 1]), ([0, 1, 3], [2]), ([0, 1, 2], [3])]"
    have a: "2 \<le> length (sequences four_selector)" by (simp add: four_selector_fields)
    have b: "min_n_components four_selector \<le> 2 \<and> 2 \<le> max_n_components four_selector"
      by (simp add: four_selector_fields)
    have c: "List.map_filter (held_out_sample cv_lib four_selector 2) ?folds \<noteq> []"
      by (simp only: mf) simp
    have d: "py_lt NegInf (f_mean ideal_arith
           (List.map_filter (held_out_sample cv_lib four_selector 2) ?folds))"
      by (simp only: mf) (simp add: ideal_arith_ops)
    from a b four_selector_folds c d show ?thesis by blast
  qed
  have cv2: "\<exists>m. select CrossValidation KFold ideal_arith cv_lib four_selector = Inr (Some m) \<and>
        min_n_components four_selector \<le> n_components m \<and>
        n_components m \<le> max_n_components four_selector"
    using select_returns_model_in_range
      [where ar = ideal_arith and lib = cv_lib and s = four_selector,
       THEN conjunct2, THEN conjunct2, THEN conjunct2, THEN conjunct1] cv2_h by blast
  have const: "\<exists>m. select Constant KFold ideal_arith rec_lib vocab2_selector = Inr (Some m) \<and>
      n_components m = 15"
    using select_returns_model_in_range
      [where ar = ideal_arith and lib = rec_lib and s = vocab2_selector
         and split_method = KFold,
       THEN conjunct2, THEN conjunct2, THEN conjunct2, THEN conjunct2]
    by (simp add: vocab2_selector_fields rec_lib_fit)
  from bic dic cv1 cv2 const show ?thesis by blast
qed

end
